theory Spec2Isabelle
  imports Complex_Main "HOL-Library.Log_Nat"
begin

section \<open>The autosave manager of \<open>scripts/python/autosave.py\<close>\<close>

text \<open>
  The script is a class \<open>AutosaveManager\<close> driven by callbacks of its host: a Qt
  single-shot timer, a Qt message box and the scene-file events of the 3D application.
  The manager's attributes and the Qt objects it holds are records; every call into the
  host is appended to a trace, so that "a save happened" or "a dialog was shown" is a
  statement about that trace. What the host answers (the \<open>hscript\<close> reply, whether the
  save raises, which thread runs) is an input of each operation.

  The timer's \<open>timeout\<close> and a response to the dialog arrive as events (\<open>step\<close>).
  The one signal that is emitted from inside a call of the manager is the \<open>finished\<close>
  of a visible dialog that line 95 closes: its slot \<open>auto_save_done\<close> runs inside that
  \<open>close()\<close>, so \<open>start_autosave_timer\<close> and \<open>auto_save_done\<close> call each other.
  The scene save is one host call; the scene events it causes arrive as events.
\<close>

subsection \<open>Exceptions\<close>

text \<open>
  The exceptions that occur: the two that the conversions raise, the host's
  \<open>hou.OperationFailed\<close>, and the three built-in exceptions that do not derive from
  \<open>Exception\<close>, which an \<open>except Exception\<close> clause does not catch.
\<close>

datatype pyerr = ValueError | OverflowError | OperationFailed | KeyboardInterrupt | SystemExit
  | GeneratorExit

fun is_Exception :: "pyerr \<Rightarrow> bool" where
  "is_Exception KeyboardInterrupt = False"
| "is_Exception SystemExit = False"
| "is_Exception GeneratorExit = False"
| "is_Exception _ = True"

subsection \<open>Floats\<close>

text \<open>
  A Python float is an IEEE 754 binary64 value: a finite one is the rational number it
  denotes (the sign of zero is not kept), the others are the two infinities and NaN.
  An arithmetic result is the exact result rounded to the nearest binary64 value, ties
  to even, with 53 significant bits, the smallest exponent \<open>-1022\<close>, and overflow to
  infinity from \<open>2 ^ 1024\<close> on.
\<close>

datatype pyfloat = Finite rat | PosInf | NegInf | NaN

definition pow2 :: "int \<Rightarrow> rat" where
  "pow2 k = (if 0 \<le> k then 2 ^ nat k else 1 / 2 ^ nat (- k))"

text \<open>For \<open>a > 0\<close>, the exponent \<open>e\<close> with \<open>2 ^ e \<le> a < 2 ^ (e + 1)\<close>.\<close>

definition binade :: "rat \<Rightarrow> int" where
  "binade a = (let k = bitlen (fst (quotient_of a)) - bitlen (snd (quotient_of a))
               in if pow2 k \<le> a then k else k - 1)"

definition round_half_even :: "rat \<Rightarrow> int" where
  "round_half_even r =
     (let f = \<lfloor>r\<rfloor>; d = r - of_int f
      in if d < 1 / 2 then f else if 1 / 2 < d then f + 1 else if even f then f else f + 1)"

definition round_double :: "rat \<Rightarrow> pyfloat" where
  "round_double q =
     (if q = 0 then Finite 0
      else (let a = \<bar>q\<bar>;
                u = pow2 (max (binade a) (- 1022) - 52);
                r = of_int (round_half_even (a / u)) * u
            in if pow2 1024 \<le> r then (if 0 < q then PosInf else NegInf)
               else Finite (if 0 < q then r else - r)))"

text \<open>
  \<open>x * n\<close> for a float \<open>x\<close> and a positive int \<open>n\<close> below \<open>2 ^ 53\<close>, which converts
  to a float exactly (60 and 1000 are the ones line 112 uses).
\<close>

definition float_times :: "pyfloat \<Rightarrow> int \<Rightarrow> pyfloat" where
  "float_times x n = (case x of Finite q \<Rightarrow> round_double (q * of_int n) | _ \<Rightarrow> x)"

text \<open>\<open>int(x)\<close> on a float truncates towards zero and raises on an infinity and on NaN.\<close>

definition py_int_of_float :: "pyfloat \<Rightarrow> pyerr + int" where
  "py_int_of_float x =
     (case x of
        Finite q \<Rightarrow> Inr (if 0 \<le> q then \<lfloor>q\<rfloor> else - \<lfloor>- q\<rfloor>)
      | NaN \<Rightarrow> Inl ValueError
      | _ \<Rightarrow> Inl OverflowError)"

subsection \<open>Strings: \<open>str * int\<close>, \<open>int(str)\<close> and \<open>float(str)\<close>\<close>

text \<open>
  Strings are ASCII strings. \<open>autosave_interval\<close> is a float after \<open>__init__\<close>; the
  attribute is public and \<open>start_autosave_timer\<close> passes it through \<open>float(...)\<close>, so
  a string is the other value it is written for.
\<close>

datatype pyval = PyFloat pyfloat | PyStr string

definition py_str_mul :: "string \<Rightarrow> int \<Rightarrow> string" where
  "py_str_mul s n = concat (replicate (nat n) s)"

text \<open>The characters both conversions strip: space, tab, newline, VT, FF and CR.\<close>

definition is_space :: "char \<Rightarrow> bool" where
  "is_space c = (c \<in> {CHR '' '', CHR 0x09, CHR 0x0A, CHR 0x0B, CHR 0x0C, CHR 0x0D})"

definition is_digit :: "char \<Rightarrow> bool" where
  "is_digit c = (c \<in> set ''0123456789'')"

definition is_sign :: "char \<Rightarrow> bool" where
  "is_sign c = (c = CHR ''+'' \<or> c = CHR ''-'')"

definition digit_val :: "char \<Rightarrow> int" where
  "digit_val c = int (of_char c) - 48"

fun has_double_underscore :: "string \<Rightarrow> bool" where
  "has_double_underscore (a # b # cs) =
     ((a = CHR ''_'' \<and> b = CHR ''_'') \<or> has_double_underscore (b # cs))"
| "has_double_underscore _ = False"

text \<open>A decimal digit part: digits, single underscores allowed between two digits.\<close>

definition digitpart :: "string \<Rightarrow> bool" where
  "digitpart d = (d \<noteq> [] \<and> list_all (\<lambda>c. is_digit c \<or> c = CHR ''_'') d
                  \<and> is_digit (hd d) \<and> is_digit (last d) \<and> \<not> has_double_underscore d)"

definition digits_value :: "string \<Rightarrow> int" where
  "digits_value d = foldl (\<lambda>a c. if c = CHR ''_'' then a else 10 * a + digit_val c) 0 d"

definition strip :: "string \<Rightarrow> string" where
  "strip s = rev (dropWhile is_space (rev (dropWhile is_space s)))"

definition signed :: "string \<Rightarrow> bool" where
  "signed t = (t \<noteq> [] \<and> is_sign (hd t))"

definition unsigned_part :: "string \<Rightarrow> string" where
  "unsigned_part t = (if signed t then tl t else t)"

definition negative :: "string \<Rightarrow> bool" where
  "negative t = (t \<noteq> [] \<and> hd t = CHR ''-'')"

text \<open>
  \<open>int(s)\<close> on a string, base 10: surrounding whitespace is stripped, one sign is
  allowed, then a digit part. \<open>None\<close> is the \<open>ValueError\<close>. \<open>maxd\<close> is the
  interpreter's limit on the number of digits (\<open>sys.get_int_max_str_digits()\<close>, 4300 by
  default where there is one); 0 stands for no limit.
\<close>

definition py_int_of_str :: "nat \<Rightarrow> string \<Rightarrow> int option" where
  "py_int_of_str maxd s =
     (let t = strip s; d = unsigned_part t
      in if digitpart d \<and> (maxd = 0 \<or> length (filter is_digit d) \<le> maxd)
         then Some (if negative t then - digits_value d else digits_value d)
         else None)"

text \<open>
  \<open>float(s)\<close> on a string: the same stripping and sign, then \<open>inf\<close>, \<open>infinity\<close> or
  \<open>nan\<close> in any case, or a decimal number: digit parts around an optional point (one
  of them may be missing), and an optional exponent \<open>e\<close> or \<open>E\<close> with a sign and a
  digit part. The value is the decimal number rounded to the nearest float.
\<close>

definition lower :: "char \<Rightarrow> char" where
  "lower c = (if (65::nat) \<le> of_char c \<and> of_char c \<le> (90::nat)
              then char_of (of_char c + (32::nat)) else c)"

definition pow10 :: "int \<Rightarrow> rat" where
  "pow10 k = (if 0 \<le> k then 10 ^ nat k else 1 / 10 ^ nat (- k))"

definition is_exp_mark :: "char \<Rightarrow> bool" where
  "is_exp_mark c = (c = CHR ''e'' \<or> c = CHR ''E'')"

definition exponent_of :: "string \<Rightarrow> int option" where
  "exponent_of r =
     (if r = [] then Some 0
      else (let x = tl r; d = unsigned_part x
            in if digitpart d then Some (if negative x then - digits_value d else digits_value d)
               else None))"

definition mantissa_of :: "string \<Rightarrow> rat option" where
  "mantissa_of w =
     (let ip = takeWhile (\<lambda>c. c \<noteq> CHR ''.'') w; r = dropWhile (\<lambda>c. c \<noteq> CHR ''.'') w
      in if r = [] then (if digitpart ip then Some (of_int (digits_value ip)) else None)
         else (let fp = tl r
               in if (ip = [] \<or> digitpart ip) \<and> (fp = [] \<or> digitpart fp) \<and> \<not> (ip = [] \<and> fp = [])
                  then Some (of_int (digits_value ip)
                             + of_int (digits_value fp) / 10 ^ length (filter is_digit fp))
                  else None))"

definition decimal_of :: "string \<Rightarrow> rat option" where
  "decimal_of u =
     (case (mantissa_of (takeWhile (\<lambda>c. \<not> is_exp_mark c) u),
            exponent_of (dropWhile (\<lambda>c. \<not> is_exp_mark c) u)) of
        (Some q, Some k) \<Rightarrow> Some (q * pow10 k)
      | _ \<Rightarrow> None)"

definition py_float_of_str :: "string \<Rightarrow> pyfloat option" where
  "py_float_of_str s =
     (let t = strip s; u = unsigned_part t; w = map lower u
      in if w = ''inf'' \<or> w = ''infinity'' then Some (if negative t then NegInf else PosInf)
         else if w = ''nan'' then Some NaN
         else (case decimal_of u of
                 None \<Rightarrow> None
               | Some q \<Rightarrow> Some (round_double (if negative t then - q else q))))"

subsection \<open>Host objects and the manager\<close>

datatype level = DEBUG | INFO | WARNING | ERROR

datatype call =
    Log level
  | Hscript
  | HipSave
  | AddEventCallback
  | TimerNew
  | TimerStop
  | TimerStart int
  | MsgNew
  | MsgShow
  | MsgClose

record qtimer =
  isActive :: bool
  singleShot :: bool
  interval :: int
  timeout_slot :: bool

text \<open>
  A message box is on screen, or hidden with the button it reports as clicked: it
  reports none while it is on screen, since showing it resets the clicked button and a
  click hides the box before \<open>finished\<close> is emitted.
\<close>

datatype display = Shown | Hidden "string option"

record qmessagebox =
  windowTitle :: string
  msg_text :: string
  buttons :: "string list"
  defaultButton :: "string option"
  escapeButton :: "string option"
  finished_slot :: bool
  isModal :: bool
  display :: display

definition isVisible :: "qmessagebox \<Rightarrow> bool" where
  "isVisible d = (display d = Shown)"

definition clickedButton :: "qmessagebox \<Rightarrow> string option" where
  "clickedButton d = (case display d of Shown \<Rightarrow> None | Hidden b \<Rightarrow> b)"

definition QTimer :: qtimer where
  "QTimer = \<lparr>isActive = False, singleShot = False, interval = 0, timeout_slot = False\<rparr>"

definition QMessageBox :: qmessagebox where
  "QMessageBox = \<lparr>windowTitle = [], msg_text = [], buttons = [], defaultButton = None,
     escapeButton = None, finished_slot = False, isModal = False, display = Hidden None\<rparr>"

text \<open>
  The manager. \<open>orphan_timers\<close> and \<open>orphan_msgs\<close> are the Qt objects an attribute
  pointed to before it was overwritten: the manager cannot reach them any more, and
  they are listed as they were when they were replaced.
\<close>

record manager =
  autosave_session_mute :: bool
  autosave_timer :: "qtimer option"
  autosave_msg :: "qmessagebox option"
  autosave_interval :: pyval
  orphan_timers :: "qtimer list"
  orphan_msgs :: "qmessagebox list"
  trace :: "call list"

text \<open>
  What the host answers during one operation: the thread of the application object
  (if there is one) and the current thread, the exception the scene save raises (if
  any), and the interpreter's digit limit for \<open>int(str)\<close>.
\<close>

record env =
  qapp_thread :: "nat option"
  current_thread :: nat
  save_raises :: "pyerr option"
  int_max_str_digits :: nat

datatype hipFileEventType =
  BeforeClear | AfterClear | BeforeLoad | AfterLoad | BeforeMerge | AfterMerge
  | BeforeSave | AfterSave

definition emit :: "call \<Rightarrow> manager \<Rightarrow> manager" where
  "emit c m = m\<lparr>trace := trace m @ [c]\<rparr>"

text \<open>\<open>__init__\<close>; the interval is the float \<open>0.2\<close>.\<close>

definition init :: manager where
  "init = \<lparr>autosave_session_mute = False, autosave_timer = None, autosave_msg = None,
     autosave_interval = PyFloat (Finite (3602879701896397 / 18014398509481984)),
     orphan_timers = [], orphan_msgs = [], trace = [Log DEBUG]\<rparr>"

subsection \<open>The methods\<close>

definition autosave_enabled :: "string \<times> string \<Rightarrow> manager \<Rightarrow> bool \<times> manager" where
  "autosave_enabled reply m = (fst reply = ''autosave on'' @ [CHR 0x0A], emit Hscript m)"

text \<open>
  \<open>save_scene\<close> returns a bool, or lets pass what its \<open>except Exception\<close> does not
  catch.
\<close>

definition save_scene :: "env \<Rightarrow> manager \<Rightarrow> (pyerr + bool) \<times> manager" where
  "save_scene e m =
     (case save_raises e of
        None \<Rightarrow> (Inr True, emit (Log INFO) (emit HipSave m))
      | Some ex \<Rightarrow>
          if is_Exception ex then (Inr False, emit (Log ERROR) (emit HipSave m))
          else (Inl ex, emit HipSave m))"

definition should_autosave_timer_run :: "env \<Rightarrow> manager \<Rightarrow> bool \<times> manager" where
  "should_autosave_timer_run e m =
     (if autosave_session_mute m then (False, emit (Log DEBUG) m)
      else (case qapp_thread e of
              None \<Rightarrow> (False, m)
            | Some t \<Rightarrow> (t = current_thread e, m)))"

definition is_autosave_timer_active :: "manager \<Rightarrow> bool" where
  "is_autosave_timer_active m =
     (case autosave_timer m of None \<Rightarrow> False | Some t \<Rightarrow> isActive t)"

text \<open>Lines 104 to 107: \<open>float(...)\<close>, whose \<open>ValueError\<close> is logged and dropped.\<close>

definition convert_interval :: "manager \<Rightarrow> manager" where
  "convert_interval m =
     (case autosave_interval m of
        PyFloat x \<Rightarrow> m
      | PyStr s \<Rightarrow> (case py_float_of_str s of
                     Some x \<Rightarrow> m\<lparr>autosave_interval := PyFloat x\<rparr>
                   | None \<Rightarrow> emit (Log WARNING) m))"

text \<open>Line 112's argument: \<open>int(self.autosave_interval * 60 * 1000)\<close>.\<close>

definition interval_msec :: "env \<Rightarrow> pyval \<Rightarrow> pyerr + int" where
  "interval_msec e v =
     (case v of
        PyFloat x \<Rightarrow> py_int_of_float (float_times (float_times x 60) 1000)
      | PyStr s \<Rightarrow> (case py_int_of_str (int_max_str_digits e) (py_str_mul (py_str_mul s 60) 1000) of
                     None \<Rightarrow> Inl ValueError
                   | Some n \<Rightarrow> Inr n))"

text \<open>\<open>QTimer.start\<close> takes a C \<open>int\<close>: a Python int outside its range raises.\<close>

definition c_int :: "int \<Rightarrow> bool" where
  "c_int n = (- 2147483648 \<le> n \<and> n \<le> 2147483647)"

text \<open>Lines 109 to 111: the new timer replaces the attribute.\<close>

definition new_timer :: "manager \<Rightarrow> manager" where
  "new_timer m =
     emit TimerNew
       (m\<lparr>orphan_timers := orphan_timers m @ (case autosave_timer m of None \<Rightarrow> [] | Some t \<Rightarrow> [t]),
          autosave_timer := Some (QTimer\<lparr>singleShot := True, timeout_slot := True\<rparr>)\<rparr>)"

text \<open>Lines 97 to 113 of \<open>start_autosave_timer\<close>, what follows the stop.\<close>

definition start_rest :: "bool \<Rightarrow> env \<Rightarrow> manager \<Rightarrow> pyerr option \<times> manager" where
  "start_rest quit e m =
     (if quit then (None, emit (Log INFO) m)
      else
        (let (run, m2) = should_autosave_timer_run e m in
         if \<not> run then (None, m2)
         else
           (let m3 = new_timer (convert_interval m2) in
            case interval_msec e (autosave_interval m3) of
              Inl err \<Rightarrow> (Some err, m3)
            | Inr n \<Rightarrow>
                if c_int n then
                  (None, emit (Log DEBUG) (emit (TimerStart n)
                     (m3\<lparr>autosave_timer :=
                           map_option (\<lambda>t. t\<lparr>isActive := True, interval := n\<rparr>) (autosave_timer m3)\<rparr>)))
                else (Some OverflowError, m3))))"

text \<open>The third button's text, \<open>No, don't ask again in this session\<close>.\<close>

definition mute_text :: string where
  "mute_text = ''No, don'' @ [CHR 0x27] @ ''t ask again in this session''"

text \<open>
  \<open>start_autosave_timer\<close> and \<open>auto_save_done\<close>. Lines 92 to 95 stop the active
  timer and, under that test only, close the box. \<open>close()\<close> is ignored by a box
  without an escape button; otherwise a box that is on screen is hidden and emits
  \<open>finished\<close>, whose slot \<open>auto_save_done\<close> (line 133) runs before \<open>close()\<close> returns
  and sees no clicked button; an exception that leaves the slot is reported by the
  toolkit and does not reach the caller of \<open>close()\<close>. When the close event has
  been handled, the box reports its escape button as the clicked one.
\<close>

function start_autosave_timer :: "bool \<Rightarrow> env \<Rightarrow> manager \<Rightarrow> pyerr option \<times> manager"
  and auto_save_done :: "env \<Rightarrow> manager \<Rightarrow> pyerr option \<times> manager"
where
  "start_autosave_timer quit e m =
     start_rest quit e
       (if is_autosave_timer_active m then
          (let m1 = emit TimerStop
                      (m\<lparr>autosave_timer := map_option (\<lambda>t. t\<lparr>isActive := False\<rparr>) (autosave_timer m)\<rparr>)
           in case autosave_msg m1 of
                None \<Rightarrow> m1
              | Some d \<Rightarrow>
                  (case escapeButton d of
                     None \<Rightarrow> emit MsgClose m1
                   | Some b \<Rightarrow>
                       (let m2 = (if isVisible d \<and> finished_slot d
                                  then snd (auto_save_done e
                                         (emit MsgClose (m1\<lparr>autosave_msg := Some (d\<lparr>display := Hidden None\<rparr>)\<rparr>)))
                                  else emit MsgClose m1)
                        in m2\<lparr>autosave_msg :=
                                map_option (\<lambda>x. x\<lparr>display := Hidden (Some b)\<rparr>) (autosave_msg m2)\<rparr>)))
        else m)"
| "auto_save_done e m =
     (case (case autosave_msg m of None \<Rightarrow> None | Some d \<Rightarrow> clickedButton d) of
        None \<Rightarrow> start_autosave_timer False e m
      | Some b \<Rightarrow>
          if b = ''Save'' then
            (case fst (save_scene e m) of
               Inl ex \<Rightarrow> (Some ex, snd (save_scene e m))
             | Inr r \<Rightarrow> start_autosave_timer False e (snd (save_scene e m)))
          else if b = mute_text then
            start_autosave_timer True e (m\<lparr>autosave_session_mute := True\<rparr>)
          else start_autosave_timer False e m)"
  by pat_completeness auto
termination
  by (relation "measure (\<lambda>x. case x of
          Inl (q, e, m) \<Rightarrow> 2 * (if is_autosave_timer_active m then 1 else 0)
        | Inr (e, m) \<Rightarrow> 2 * (if is_autosave_timer_active m then 1 else 0) + 1)")
     (auto simp: is_autosave_timer_active_def emit_def save_scene_def
           split: option.splits if_splits)

declare start_autosave_timer.simps [simp del] auto_save_done.simps [simp del]

definition prompt :: qmessagebox where
  "prompt = QMessageBox\<lparr>windowTitle := ''Autosave'',
     msg_text := ''Autosave is disabled. Would you like to save now?'',
     buttons := [''Save'', ''No'', mute_text],
     defaultButton := Some ''No'', escapeButton := Some ''No'',
     finished_slot := True, isModal := False, display := Shown\<rparr>"

text \<open>
  \<open>autosave_enabled\<close> is called twice (lines 121 and 123): \<open>r1\<close> is the host's reply
  inside the log message, \<open>r2\<close> the reply the test reads.
\<close>

definition check_autosave :: "string \<times> string \<Rightarrow> string \<times> string \<Rightarrow> manager \<Rightarrow> manager" where
  "check_autosave r1 r2 m =
     (let m1 = emit (Log DEBUG) m;
          (b1, m2) = autosave_enabled r1 m1;
          m3 = emit (Log DEBUG) m2;
          (b2, m4) = autosave_enabled r2 m3
      in if \<not> b2 then
           emit MsgShow (emit MsgNew
             (m4\<lparr>orphan_msgs := orphan_msgs m4 @ (case autosave_msg m4 of None \<Rightarrow> [] | Some d \<Rightarrow> [d]),
                 autosave_msg := Some prompt\<rparr>))
         else m4)"

definition on_scene_file_saved :: "env \<Rightarrow> manager \<Rightarrow> pyerr option \<times> manager" where
  "on_scene_file_saved e m =
     (let (run, m1) = should_autosave_timer_run e m in
      if run then start_autosave_timer False e m1 else (None, m1))"

definition scene_event_callback :: "hipFileEventType \<Rightarrow> env \<Rightarrow> manager \<Rightarrow> pyerr option \<times> manager" where
  "scene_event_callback event_type e m =
     (if event_type = AfterSave then on_scene_file_saved e m else (None, m))"

text \<open>The method \<open>setup\<close> (the name is an Isabelle keyword).\<close>

definition setup_manager :: "env \<Rightarrow> manager \<Rightarrow> pyerr option \<times> manager" where
  "setup_manager e m =
     (let (run, m1) = should_autosave_timer_run e m;
          (err, m2) = (if run then start_autosave_timer False e m1 else (None, m1))
      in case err of
           Some x \<Rightarrow> (Some x, m2)
         | None \<Rightarrow> (None, emit (Log DEBUG) (emit AddEventCallback m2)))"

subsection \<open>The host's events\<close>

text \<open>
  A timer fires only while it is active, and a single-shot timer is inactive once it
  has fired. A dialog finishes only while it is on screen: a click on one of its buttons
  makes that button the clicked one, dismissing the dialog selects its escape button,
  and any other response leaves no clicked button; the box is hidden when the slot
  runs. An exception that leaves a slot is reported by the toolkit and the manager
  keeps the state reached.
\<close>

datatype response = Click string | Dismiss

datatype event =
    TimerFired "string \<times> string" "string \<times> string"
  | OrphanTimerFired nat "string \<times> string" "string \<times> string"
  | DialogFinished response env
  | SceneEvent hipFileEventType env

definition fired :: "qtimer \<Rightarrow> qtimer" where
  "fired t = (if singleShot t then t\<lparr>isActive := False\<rparr> else t)"

definition answer :: "response \<Rightarrow> qmessagebox \<Rightarrow> string option" where
  "answer r d = (case r of
                   Click b \<Rightarrow> (if b \<in> set (buttons d) then Some b else None)
                 | Dismiss \<Rightarrow> escapeButton d)"

fun step :: "event \<Rightarrow> manager \<Rightarrow> manager" where
  "step (TimerFired r1 r2) m =
     (case autosave_timer m of
        None \<Rightarrow> m
      | Some t \<Rightarrow>
          if isActive t \<and> timeout_slot t
          then check_autosave r1 r2 (m\<lparr>autosave_timer := Some (fired t)\<rparr>)
          else m)"
| "step (OrphanTimerFired i r1 r2) m =
     (if i < length (orphan_timers m) \<and> isActive (orphan_timers m ! i)
         \<and> timeout_slot (orphan_timers m ! i)
      then check_autosave r1 r2 (m\<lparr>orphan_timers := (orphan_timers m)[i := fired (orphan_timers m ! i)]\<rparr>)
      else m)"
| "step (DialogFinished r e) m =
     (case autosave_msg m of
        None \<Rightarrow> m
      | Some d \<Rightarrow>
          if isVisible d \<and> finished_slot d
          then snd (auto_save_done e
                 (m\<lparr>autosave_msg := Some (d\<lparr>display := Hidden (answer r d)\<rparr>)\<rparr>))
          else m)"
| "step (SceneEvent t e) m = snd (scene_event_callback t e m)"

definition run :: "event list \<Rightarrow> manager \<Rightarrow> manager" where
  "run evs m = fold step evs m"

text \<open>The calls an operation added to the trace.\<close>

definition added :: "manager \<Rightarrow> manager \<Rightarrow> call list" where
  "added m m' = drop (length (trace m)) (trace m')"

fun is_timer_start :: "call \<Rightarrow> bool" where
  "is_timer_start (TimerStart n) = True"
| "is_timer_start _ = False"

subsection \<open>Notions used by the statements\<close>

text \<open>Every timer the manager no longer points to is inactive.\<close>

definition orphans_inactive :: "manager \<Rightarrow> bool" where
  "orphans_inactive m = list_all (\<lambda>t. \<not> isActive t) (orphan_timers m)"

text \<open>The number of timers that are active, the manager's own and the orphaned ones.\<close>

definition active_timers :: "manager \<Rightarrow> nat" where
  "active_timers m =
     length (filter isActive (orphan_timers m @ (case autosave_timer m of None \<Rightarrow> [] | Some t \<Rightarrow> [t])))"

text \<open>A list of calls without a save and without a dialog.\<close>

definition quiet :: "call list \<Rightarrow> bool" where
  "quiet cs = (HipSave \<notin> set cs \<and> MsgShow \<notin> set cs \<and> MsgNew \<notin> set cs)"


text \<open>
  An environment for concrete inputs: the call runs on the GUI thread, the save
  succeeds, and the digit limit is the default one.
\<close>

definition gui_env :: env where
  "gui_env = \<lparr>qapp_thread = Some 0, current_thread = 0, save_raises = None,
              int_max_str_digits = 4300\<rparr>"

definition autosave_on :: "string \<times> string" where
  "autosave_on = (''autosave on'' @ [CHR 0x0A], [])"

definition autosave_off :: "string \<times> string" where
  "autosave_off = (''autosave off'' @ [CHR 0x0A], [])"

text \<open>Line 145: the button the manager's dialog reports as clicked.\<close>

definition clicked_button :: "manager \<Rightarrow> string option" where
  "clicked_button m = (case autosave_msg m of None \<Rightarrow> None | Some d \<Rightarrow> clickedButton d)"

text \<open>The event is a click on \<open>Save\<close> in the manager's visible prompt.\<close>

fun save_clicked :: "event \<Rightarrow> manager \<Rightarrow> bool" where
  "save_clicked (DialogFinished r e) m =
     (case autosave_msg m of
        None \<Rightarrow> False
      | Some d \<Rightarrow> isVisible d \<and> finished_slot d \<and> answer r d = Some ''Save'')"
| "save_clicked _ m = False"

text \<open>The strings whose form \<open>int(...)\<close> accepts.\<close>

definition int_literal :: "string \<Rightarrow> bool" where
  "int_literal t = digitpart (unsigned_part (strip t))"

text \<open>
  Lines 92 to 95 with the slot that runs inside \<open>close()\<close> written out: it finds the
  timer stopped and no clicked button, so it is lines 97 to 113 without \<open>quit\<close>.
\<close>

definition stop_active :: "env \<Rightarrow> manager \<Rightarrow> manager" where
  "stop_active e m =
     (if is_autosave_timer_active m then
        (let m1 = emit TimerStop
                    (m\<lparr>autosave_timer := map_option (\<lambda>t. t\<lparr>isActive := False\<rparr>) (autosave_timer m)\<rparr>)
         in case autosave_msg m1 of
              None \<Rightarrow> m1
            | Some d \<Rightarrow>
                (case escapeButton d of
                   None \<Rightarrow> emit MsgClose m1
                 | Some b \<Rightarrow>
                     (let m2 = (if isVisible d \<and> finished_slot d
                                then snd (start_rest False e
                                       (emit MsgClose (m1\<lparr>autosave_msg := Some (d\<lparr>display := Hidden None\<rparr>)\<rparr>)))
                                else emit MsgClose m1)
                      in m2\<lparr>autosave_msg :=
                              map_option (\<lambda>x. x\<lparr>display := Hidden (Some b)\<rparr>) (autosave_msg m2)\<rparr>)))
      else m)"

text \<open>A string of ASCII characters.\<close>

definition ascii :: "string \<Rightarrow> bool" where
  "ascii s = list_all (\<lambda>c. of_char c < (128::nat)) s"

section \<open>Properties\<close>

subsection \<open>The parts of \<open>start_autosave_timer\<close>\<close>

lemma quiet_simps [simp]:
  "quiet []"
  "quiet (c # cs) = (c \<noteq> HipSave \<and> c \<noteq> MsgShow \<and> c \<noteq> MsgNew \<and> quiet cs)"
  "quiet (cs @ ds) = (quiet cs \<and> quiet ds)"
  by (auto simp: quiet_def)

lemma added_append [simp]: "trace m' = trace m @ cs \<Longrightarrow> added m m' = cs"
  by (simp add: added_def)

lemma should_run_fields:
  "trace (snd (should_autosave_timer_run e m)) =
     trace m @ (if autosave_session_mute m then [Log DEBUG] else [])"
  "autosave_session_mute (snd (should_autosave_timer_run e m)) = autosave_session_mute m"
  "autosave_interval (snd (should_autosave_timer_run e m)) = autosave_interval m"
  "orphan_timers (snd (should_autosave_timer_run e m)) = orphan_timers m"
  "orphan_msgs (snd (should_autosave_timer_run e m)) = orphan_msgs m"
  "autosave_timer (snd (should_autosave_timer_run e m)) = autosave_timer m"
  "autosave_msg (snd (should_autosave_timer_run e m)) = autosave_msg m"
  by (auto simp: should_autosave_timer_run_def emit_def split: option.splits)

lemma should_run_fst:
  "fst (should_autosave_timer_run e m) =
     (\<not> autosave_session_mute m \<and> qapp_thread e = Some (current_thread e))"
  by (auto simp: should_autosave_timer_run_def split: option.splits)

lemma should_run_snd_unmuted:
  "\<not> autosave_session_mute m \<Longrightarrow> snd (should_autosave_timer_run e m) = m"
  by (auto simp: should_autosave_timer_run_def split: option.splits)

lemma convert_interval_fields:
  "autosave_session_mute (convert_interval m) = autosave_session_mute m"
  "orphan_timers (convert_interval m) = orphan_timers m"
  "orphan_msgs (convert_interval m) = orphan_msgs m"
  "autosave_timer (convert_interval m) = autosave_timer m"
  "autosave_msg (convert_interval m) = autosave_msg m"
  by (auto simp: convert_interval_def emit_def split: pyval.splits option.splits)

lemma convert_interval_trace:
  "\<exists>cs. trace (convert_interval m) = trace m @ cs \<and> set cs \<subseteq> {Log WARNING}"
  by (auto simp: convert_interval_def emit_def split: pyval.splits option.splits)

lemma new_timer_fields:
  "autosave_session_mute (new_timer m) = autosave_session_mute m"
  "autosave_interval (new_timer m) = autosave_interval m"
  "orphan_msgs (new_timer m) = orphan_msgs m"
  "autosave_msg (new_timer m) = autosave_msg m"
  "trace (new_timer m) = trace m @ [TimerNew]"
  "autosave_timer (new_timer m) = Some (QTimer\<lparr>singleShot := True, timeout_slot := True\<rparr>)"
  "orphan_timers (new_timer m) =
     orphan_timers m @ (case autosave_timer m of None \<Rightarrow> [] | Some t \<Rightarrow> [t])"
  by (auto simp: new_timer_def emit_def)

lemma start_rest_quit:
  "start_rest True e m = (None, emit (Log INFO) m)"
  by (simp add: start_rest_def)

lemma start_rest_norun:
  "autosave_session_mute m \<or> qapp_thread e \<noteq> Some (current_thread e) \<Longrightarrow>
   start_rest False e m = (None, snd (should_autosave_timer_run e m))"
  using should_run_fst [of e m]
  by (auto simp: start_rest_def Let_def split: prod.splits)

lemma start_rest_run:
  "\<not> autosave_session_mute m \<Longrightarrow> qapp_thread e = Some (current_thread e) \<Longrightarrow>
   start_rest False e m =
     (let m3 = new_timer (convert_interval m) in
      case interval_msec e (autosave_interval m3) of
        Inl err \<Rightarrow> (Some err, m3)
      | Inr n \<Rightarrow>
          if c_int n then
            (None, emit (Log DEBUG) (emit (TimerStart n)
               (m3\<lparr>autosave_timer := Some (QTimer\<lparr>singleShot := True, timeout_slot := True,
                                                  isActive := True, interval := n\<rparr>)\<rparr>)))
          else (Some OverflowError, m3))"
  using should_run_fst [of e m] should_run_snd_unmuted [of m e]
  by (auto simp: start_rest_def Let_def new_timer_fields split: prod.splits sum.splits)

lemma start_rest_keeps:
  "autosave_session_mute (snd (start_rest q e m)) = autosave_session_mute m"
  "autosave_msg (snd (start_rest q e m)) = autosave_msg m"
  "orphan_msgs (snd (start_rest q e m)) = orphan_msgs m"
proof -
  show "autosave_session_mute (snd (start_rest q e m)) = autosave_session_mute m"
  proof (cases "q \<or> autosave_session_mute m \<or> qapp_thread e \<noteq> Some (current_thread e)")
    case True
    then show ?thesis
      by (cases q) (auto simp: start_rest_quit start_rest_norun emit_def should_run_fields)
  next
    case False
    then show ?thesis
      by (cases q) (auto simp: start_rest_run Let_def emit_def convert_interval_fields
            new_timer_fields split: sum.splits)
  qed
  show "autosave_msg (snd (start_rest q e m)) = autosave_msg m"
  proof (cases "q \<or> autosave_session_mute m \<or> qapp_thread e \<noteq> Some (current_thread e)")
    case True
    then show ?thesis
      by (cases q) (auto simp: start_rest_quit start_rest_norun emit_def should_run_fields)
  next
    case False
    then show ?thesis
      by (cases q) (auto simp: start_rest_run Let_def emit_def convert_interval_fields
            new_timer_fields split: sum.splits)
  qed
  show "orphan_msgs (snd (start_rest q e m)) = orphan_msgs m"
  proof (cases "q \<or> autosave_session_mute m \<or> qapp_thread e \<noteq> Some (current_thread e)")
    case True
    then show ?thesis
      by (cases q) (auto simp: start_rest_quit start_rest_norun emit_def should_run_fields)
  next
    case False
    then show ?thesis
      by (cases q) (auto simp: start_rest_run Let_def emit_def convert_interval_fields
            new_timer_fields split: sum.splits)
  qed
qed


lemma start_rest_trace:
  "\<exists>cs. trace (snd (start_rest q e m)) = trace m @ cs \<and> quiet cs
        \<and> TimerStop \<notin> set cs \<and> MsgClose \<notin> set cs
        \<and> (q \<or> autosave_session_mute m \<longrightarrow> \<not> list_ex is_timer_start cs)"
proof (cases "q \<or> autosave_session_mute m \<or> qapp_thread e \<noteq> Some (current_thread e)")
  case True
  then show ?thesis
    by (cases q) (auto simp: start_rest_quit start_rest_norun emit_def should_run_fields)
next
  case False
  obtain ws where ws: "trace (convert_interval m) = trace m @ ws" "set ws \<subseteq> {Log WARNING}"
    using convert_interval_trace by blast
  then have "quiet ws" "TimerStop \<notin> set ws" "MsgClose \<notin> set ws" by (auto simp: quiet_def)
  with False ws(1) show ?thesis
    by (cases q) (auto simp: start_rest_run Let_def emit_def new_timer_fields split: sum.splits)
qed

subsection \<open>The slot inside \<open>close()\<close>\<close>

lemma mute_text_neq [simp]: "mute_text \<noteq> ''Save''" "mute_text \<noteq> ''No''"
  "''Save'' \<noteq> mute_text" "''No'' \<noteq> mute_text"
  by (simp_all add: mute_text_def)

lemma start_inactive_eq:
  "\<not> is_autosave_timer_active m \<Longrightarrow> start_autosave_timer q e m = start_rest q e m"
  by (simp add: start_autosave_timer.simps)

lemma auto_save_done_cases:
  "auto_save_done e m =
     (if clicked_button m = Some ''Save'' then
        (case fst (save_scene e m) of
           Inl ex \<Rightarrow> (Some ex, snd (save_scene e m))
         | Inr r \<Rightarrow> start_autosave_timer False e (snd (save_scene e m)))
      else if clicked_button m = Some mute_text
           then start_autosave_timer True e (m\<lparr>autosave_session_mute := True\<rparr>)
           else start_autosave_timer False e m)"
  by (auto simp: auto_save_done.simps clicked_button_def split: option.splits)

lemma nested_slot:
  assumes "\<not> is_autosave_timer_active m" and "clicked_button m = None"
  shows "auto_save_done e m = start_rest False e m"
  using assms by (simp add: auto_save_done_cases start_inactive_eq)

lemma start_eq:
  "start_autosave_timer q e m = start_rest q e (stop_active e m)"
proof (cases "is_autosave_timer_active m")
  case False
  then show ?thesis by (simp add: start_inactive_eq stop_active_def)
next
  case True
  let ?m1 = "emit TimerStop
      (m\<lparr>autosave_timer := map_option (\<lambda>t. t\<lparr>isActive := False\<rparr>) (autosave_timer m)\<rparr>)"
  have n: "auto_save_done e (emit MsgClose (?m1\<lparr>autosave_msg := Some (d\<lparr>display := Hidden None\<rparr>)\<rparr>))
      = start_rest False e (emit MsgClose (?m1\<lparr>autosave_msg := Some (d\<lparr>display := Hidden None\<rparr>)\<rparr>))"
    for d
    by (rule nested_slot)
      (auto simp: is_autosave_timer_active_def emit_def clicked_button_def clickedButton_def
         split: option.splits)
  show ?thesis
    by (subst start_autosave_timer.simps) (simp only: stop_active_def Let_def n)
qed

lemma stop_active_idle:
  "\<not> is_autosave_timer_active m \<Longrightarrow> stop_active e m = m"
  by (simp add: stop_active_def)

lemma stop_active_nested:
  assumes "is_autosave_timer_active m" and "autosave_msg m = Some d"
    and "escapeButton d = Some b" and "isVisible d" and "finished_slot d"
  shows "stop_active e m =
     (snd (start_rest False e
        (emit MsgClose (emit TimerStop
           (m\<lparr>autosave_timer := map_option (\<lambda>t. t\<lparr>isActive := False\<rparr>) (autosave_timer m),
              autosave_msg := Some (d\<lparr>display := Hidden None\<rparr>)\<rparr>)))))
      \<lparr>autosave_msg := Some (d\<lparr>display := Hidden (Some b)\<rparr>)\<rparr>"
  using assms
  by (simp add: stop_active_def Let_def emit_def start_rest_keeps)

lemma stop_active_plain:
  assumes "is_autosave_timer_active m"
    and "\<not> (\<exists>d b. autosave_msg m = Some d \<and> escapeButton d = Some b \<and> isVisible d
            \<and> finished_slot d)"
  shows "stop_active e m =
     (m\<lparr>autosave_timer := map_option (\<lambda>t. t\<lparr>isActive := False\<rparr>) (autosave_timer m),
        autosave_msg := map_option (\<lambda>d. case escapeButton d of None \<Rightarrow> d
                                        | Some b \<Rightarrow> d\<lparr>display := Hidden (Some b)\<rparr>) (autosave_msg m),
        trace := trace m @ TimerStop # (case autosave_msg m of None \<Rightarrow> [] | Some d \<Rightarrow> [MsgClose])\<rparr>)"
  using assms
  by (cases "autosave_msg m") (auto simp: stop_active_def Let_def emit_def split: option.splits)

lemma stop_active_mute:
  "autosave_session_mute (stop_active e m) = autosave_session_mute m"
proof (cases "is_autosave_timer_active m")
  case False
  then show ?thesis by (simp add: stop_active_idle)
next
  case True
  show ?thesis
  proof (cases "\<exists>d b. autosave_msg m = Some d \<and> escapeButton d = Some b \<and> isVisible d
            \<and> finished_slot d")
    case True
    then obtain d b where "autosave_msg m = Some d" "escapeButton d = Some b" "isVisible d"
        "finished_slot d" by blast
    from stop_active_nested [OF \<open>is_autosave_timer_active m\<close> this, of e]
    show ?thesis by (simp add: start_rest_keeps emit_def)
  next
    case False
    from stop_active_plain [OF \<open>is_autosave_timer_active m\<close> this, of e]
    show ?thesis by simp
  qed
qed

lemma stop_active_trace:
  "\<exists>cs. trace (stop_active e m) = trace m @ cs \<and> quiet cs
     \<and> (autosave_session_mute m \<longrightarrow> \<not> list_ex is_timer_start cs)"
proof (cases "is_autosave_timer_active m")
  case False
  then show ?thesis by (simp add: stop_active_idle)
next
  case True
  show ?thesis
  proof (cases "\<exists>d b. autosave_msg m = Some d \<and> escapeButton d = Some b \<and> isVisible d
            \<and> finished_slot d")
    case True
    then obtain d b where h: "autosave_msg m = Some d" "escapeButton d = Some b" "isVisible d"
        "finished_slot d" by blast
    let ?x = "emit MsgClose (emit TimerStop
           (m\<lparr>autosave_timer := map_option (\<lambda>t. t\<lparr>isActive := False\<rparr>) (autosave_timer m),
              autosave_msg := Some (d\<lparr>display := Hidden None\<rparr>)\<rparr>))"
    obtain cs where cs: "trace (snd (start_rest False e ?x)) = trace ?x @ cs" "quiet cs"
        "autosave_session_mute ?x \<longrightarrow> \<not> list_ex is_timer_start cs"
      using start_rest_trace [of False e ?x] by auto
    have "trace (stop_active e m) = trace m @ ([TimerStop, MsgClose] @ cs)"
      using cs(1) by (simp add: stop_active_nested [OF \<open>is_autosave_timer_active m\<close> h] emit_def)
    moreover have "quiet ([TimerStop, MsgClose] @ cs)" using cs(2) by simp
    moreover have "autosave_session_mute m \<longrightarrow> \<not> list_ex is_timer_start ([TimerStop, MsgClose] @ cs)"
      using cs(3) by (simp add: emit_def)
    ultimately show ?thesis by blast
  next
    case False
    from stop_active_plain [OF \<open>is_autosave_timer_active m\<close> this, of e]
    show ?thesis by (auto split: option.splits)
  qed
qed


subsection \<open>\<open>start_autosave_timer\<close> as a whole\<close>

lemma start_mute:
  "autosave_session_mute (snd (start_autosave_timer q e m)) = autosave_session_mute m"
  by (simp add: start_eq start_rest_keeps stop_active_mute)

lemma start_trace:
  "\<exists>cs. trace (snd (start_autosave_timer q e m)) = trace m @ cs \<and> quiet cs
        \<and> (autosave_session_mute m \<longrightarrow> \<not> list_ex is_timer_start cs)"
proof -
  obtain c1 where c1: "trace (stop_active e m) = trace m @ c1" "quiet c1"
      "autosave_session_mute m \<longrightarrow> \<not> list_ex is_timer_start c1"
    using stop_active_trace [of e m] by blast
  obtain c2 where c2: "trace (snd (start_rest q e (stop_active e m))) = trace (stop_active e m) @ c2"
      "quiet c2" "autosave_session_mute (stop_active e m) \<longrightarrow> \<not> list_ex is_timer_start c2"
    using start_rest_trace [of q e "stop_active e m"] by blast
  have "trace (snd (start_autosave_timer q e m)) = trace m @ (c1 @ c2)"
    using c1(1) c2(1) by (simp add: start_eq)
  moreover have "quiet (c1 @ c2)" using c1(2) c2(2) by simp
  moreover have "autosave_session_mute m \<longrightarrow> \<not> list_ex is_timer_start (c1 @ c2)"
    using c1(3) c2(3) by (simp add: stop_active_mute)
  ultimately show ?thesis by blast
qed


subsection \<open>The enabled check and the save\<close>

text \<open>
  Claim C5. \<open>autosave_enabled\<close> returns \<open>True\<close> exactly when the first component of
  the host's \<open>hscript("autosave")\<close> reply is the string \<open>autosave on\<close> followed by
  a newline; the same words without the newline, in another case, another reply or
  the empty reply give \<open>False\<close>.
\<close>

theorem autosave_enabled_exact:
  "fst (autosave_enabled reply m) = (fst reply = ''autosave on'' @ [CHR 0x0A])
   \<and> snd (autosave_enabled reply m) = emit Hscript m
   \<and> \<not> fst (autosave_enabled (''autosave on'', err) m)
   \<and> \<not> fst (autosave_enabled (''autosave off'' @ [CHR 0x0A], err) m)
   \<and> \<not> fst (autosave_enabled (''Autosave on'' @ [CHR 0x0A], err) m)
   \<and> \<not> fst (autosave_enabled ([], err) m)"
  by (simp add: autosave_enabled_def)

lemma save_scene_fst:
  "fst (save_scene e m) =
     (case save_raises e of None \<Rightarrow> Inr True
      | Some ex \<Rightarrow> if is_Exception ex then Inr False else Inl ex)"
  by (simp add: save_scene_def split: option.splits)

lemma save_scene_snd:
  "snd (save_scene e m) =
     m\<lparr>trace := trace m @ HipSave #
          (case save_raises e of None \<Rightarrow> [Log INFO]
           | Some ex \<Rightarrow> if is_Exception ex then [Log ERROR] else [])\<rparr>"
  by (simp add: save_scene_def emit_def split: option.splits)

text \<open>
  Claim C8, as the code has it. \<open>save_scene\<close> calls the host's save; it returns
  \<open>True\<close> after an INFO line when the save returns, and \<open>False\<close> after an ERROR line
  when the save raises an exception that derives from \<open>Exception\<close>; an exception that
  does not derive from \<open>Exception\<close> passes through \<open>save_scene\<close> with no log line. In
  every case nothing of the manager changes but the trace of calls.
\<close>

theorem save_scene_outcomes:
  "save_scene e m =
     (case save_raises e of
        None \<Rightarrow> (Inr True, m\<lparr>trace := trace m @ [HipSave, Log INFO]\<rparr>)
      | Some ex \<Rightarrow>
          if is_Exception ex then (Inr False, m\<lparr>trace := trace m @ [HipSave, Log ERROR]\<rparr>)
          else (Inl ex, m\<lparr>trace := trace m @ [HipSave]\<rparr>))"
  by (simp add: save_scene_def emit_def split: option.splits)

theorem save_scene_outcomes_witness:
  "save_scene (gui_env\<lparr>save_raises := Some OperationFailed\<rparr>) init =
     (Inr False, init\<lparr>trace := [Log DEBUG, HipSave, Log ERROR]\<rparr>)
   \<and> save_scene gui_env init = (Inr True, init\<lparr>trace := [Log DEBUG, HipSave, Log INFO]\<rparr>)
   \<and> save_scene (gui_env\<lparr>save_raises := Some SystemExit\<rparr>) init =
     (Inl SystemExit, init\<lparr>trace := [Log DEBUG, HipSave]\<rparr>)"
  using save_scene_outcomes [of "gui_env\<lparr>save_raises := Some OperationFailed\<rparr>" init]
    save_scene_outcomes [of gui_env init]
    save_scene_outcomes [of "gui_env\<lparr>save_raises := Some SystemExit\<rparr>" init]
  by (simp add: gui_env_def init_def)

text \<open>
  The claim as written fails: when the host's save raises \<open>KeyboardInterrupt\<close>,
  \<open>save_scene\<close> does not return \<open>False\<close> but lets the exception pass.
\<close>

theorem save_scene_propagates_counterexample:
  "fst (save_scene (gui_env\<lparr>save_raises := Some KeyboardInterrupt\<rparr>) init) = Inl KeyboardInterrupt
   \<and> fst (save_scene (gui_env\<lparr>save_raises := Some KeyboardInterrupt\<rparr>) init) \<noteq> Inr False
   \<and> added init (snd (save_scene (gui_env\<lparr>save_raises := Some KeyboardInterrupt\<rparr>) init)) = [HipSave]"
  by (simp add: save_scene_def gui_env_def init_def emit_def added_def)

subsection \<open>The timer's slot\<close>

lemma check_autosave_fields:
  "autosave_session_mute (check_autosave r1 r2 m) = autosave_session_mute m"
  "autosave_timer (check_autosave r1 r2 m) = autosave_timer m"
  "orphan_timers (check_autosave r1 r2 m) = orphan_timers m"
  "autosave_interval (check_autosave r1 r2 m) = autosave_interval m"
  by (simp_all add: check_autosave_def autosave_enabled_def emit_def Let_def)

lemma check_autosave_trace:
  "trace (check_autosave r1 r2 m) = trace m @ [Log DEBUG, Hscript, Log DEBUG, Hscript] @
     (if fst r2 = ''autosave on'' @ [CHR 0x0A] then [] else [MsgNew, MsgShow])"
  by (simp add: check_autosave_def autosave_enabled_def emit_def Let_def)




subsection \<open>The default interval\<close>

lemma default_interval_msec: "interval_msec e (autosave_interval init) = Inr 12000"
  unfolding init_def interval_msec_def
  by code_simp

lemma c_int_12000 [simp]: "c_int 12000"
  by (simp add: c_int_def)

subsection \<open>The dialog's slot\<close>

lemma start_rest_float:
  "autosave_interval m = PyFloat x \<Longrightarrow> autosave_interval (snd (start_rest q e m)) = PyFloat x"
proof (cases "q \<or> autosave_session_mute m \<or> qapp_thread e \<noteq> Some (current_thread e)")
  case True
  assume "autosave_interval m = PyFloat x"
  with True show ?thesis
    by (cases q) (auto simp: start_rest_quit start_rest_norun emit_def should_run_fields)
next
  case False
  assume "autosave_interval m = PyFloat x"
  with False show ?thesis
    by (cases q) (auto simp: start_rest_run Let_def emit_def convert_interval_def
          new_timer_fields split: sum.splits)
qed

lemma stop_active_float:
  assumes "autosave_interval m = PyFloat x"
  shows "autosave_interval (stop_active e m) = PyFloat x"
proof (cases "is_autosave_timer_active m")
  case False
  then show ?thesis using assms by (simp add: stop_active_idle)
next
  case True
  show ?thesis
  proof (cases "\<exists>d b. autosave_msg m = Some d \<and> escapeButton d = Some b \<and> isVisible d
            \<and> finished_slot d")
    case True
    then obtain d b where h: "autosave_msg m = Some d" "escapeButton d = Some b" "isVisible d"
        "finished_slot d" by blast
    show ?thesis
      using assms
      by (simp add: stop_active_nested [OF \<open>is_autosave_timer_active m\<close> h] start_rest_float
          emit_def)
  next
    case False
    from stop_active_plain [OF \<open>is_autosave_timer_active m\<close> this, of e]
    show ?thesis using assms by simp
  qed
qed

lemma start_run_active:
  assumes "\<not> autosave_session_mute m" and "qapp_thread e = Some (current_thread e)"
    and "autosave_interval m = PyFloat x" and "interval_msec e (PyFloat x) = Inr n"
    and "c_int n"
  shows "fst (start_autosave_timer False e m) = None
     \<and> is_autosave_timer_active (snd (start_autosave_timer False e m))
     \<and> (\<exists>cs. trace (snd (start_autosave_timer False e m)) =
            trace m @ cs @ [TimerStart n, Log DEBUG])"
proof -
  let ?s = "stop_active e m"
  have mu: "\<not> autosave_session_mute ?s" using assms(1) by (simp add: stop_active_mute)
  have iv: "autosave_interval ?s = PyFloat x" using assms(3) by (rule stop_active_float)
  obtain c1 where c1: "trace ?s = trace m @ c1" using stop_active_trace [of e m] by blast
  have ci: "convert_interval ?s = ?s" using iv by (simp add: convert_interval_def)
  show ?thesis
    using assms(4,5) iv c1
    by (simp add: start_eq start_rest_run [OF mu assms(2)] ci Let_def new_timer_fields emit_def
        is_autosave_timer_active_def)
qed

lemma auto_save_done_trace:
  "\<exists>cs. trace (snd (auto_save_done e m)) = trace m @ cs
     \<and> MsgShow \<notin> set cs \<and> MsgNew \<notin> set cs
     \<and> (HipSave \<in> set cs) = (clicked_button m = Some ''Save'')
     \<and> (autosave_session_mute m \<or> clicked_button m = Some mute_text
          \<longrightarrow> \<not> list_ex is_timer_start cs)"
proof -
  let ?s = "snd (save_scene e m)" and ?u = "m\<lparr>autosave_session_mute := True\<rparr>"
  define sv where "sv = (case save_raises e of None \<Rightarrow> [Log INFO]
      | Some ex \<Rightarrow> if is_Exception ex then [Log ERROR] else [])"
  have sv: "trace ?s = trace m @ HipSave # sv" "set sv \<subseteq> {Log INFO, Log ERROR}"
    by (auto simp: save_scene_snd sv_def split: option.splits)
  obtain c1 where c1: "trace (snd (start_autosave_timer False e ?s)) = trace ?s @ c1" "quiet c1"
      "autosave_session_mute ?s \<longrightarrow> \<not> list_ex is_timer_start c1"
    using start_trace [of False e ?s] by auto
  obtain c2 where c2: "trace (snd (start_autosave_timer True e ?u)) = trace ?u @ c2" "quiet c2"
      "\<not> list_ex is_timer_start c2"
    using start_trace [of True e ?u] by auto
  obtain c3 where c3: "trace (snd (start_autosave_timer False e m)) = trace m @ c3" "quiet c3"
      "autosave_session_mute m \<longrightarrow> \<not> list_ex is_timer_start c3"
    using start_trace [of False e m] by auto
  have ms: "autosave_session_mute ?s = autosave_session_mute m" by (simp add: save_scene_snd)
  have nsv: "MsgShow \<notin> set sv" "MsgNew \<notin> set sv" "HipSave \<notin> set sv"
      "\<not> list_ex is_timer_start sv"
    using sv(2) by (auto simp: list_ex_iff)
  show ?thesis
  proof (cases "clicked_button m = Some ''Save''")
    case True
    show ?thesis
    proof (cases "fst (save_scene e m)")
      case (Inl ex)
      then have "trace (snd (auto_save_done e m)) = trace m @ (HipSave # sv)"
        using True sv(1) by (simp add: auto_save_done_cases)
      then show ?thesis using True nsv by auto
    next
      case (Inr r)
      then have "trace (snd (auto_save_done e m)) = trace m @ (HipSave # sv @ c1)"
        using True sv(1) c1(1) by (simp add: auto_save_done_cases)
      then show ?thesis using True nsv c1(2,3) ms by (auto simp: quiet_def)
    qed
  next
    case False
    then show ?thesis
      using c2 c3 by (auto simp: auto_save_done_cases quiet_def)
  qed
qed

lemma auto_save_done_mute:
  "autosave_session_mute (snd (auto_save_done e m)) =
     (autosave_session_mute m \<or> clicked_button m = Some mute_text)"
  by (auto simp: auto_save_done_cases start_mute save_scene_snd split: sum.splits)


text \<open>
  Claim C2, as the code has it. When the clicked button is \<open>Save\<close>,
  \<open>auto_save_done\<close> first runs \<open>save_scene\<close>, whose first host call is the scene
  save. When \<open>save_scene\<close> returns, \<open>auto_save_done\<close> is the call
  \<open>start_autosave_timer()\<close> on the state the save left; an exception that
  \<open>save_scene\<close> lets pass leaves \<open>auto_save_done\<close> before that call. On the GUI
  thread, in a session that is not muted, with a float interval whose milliseconds fit
  a C \<open>int\<close>, the call returns with the timer active.
\<close>

theorem auto_save_done_save:
  assumes "autosave_msg m = Some d" and "clickedButton d = Some ''Save''"
  shows "auto_save_done e m =
       (case fst (save_scene e m) of
          Inl ex \<Rightarrow> (Some ex, snd (save_scene e m))
        | Inr r \<Rightarrow> start_autosave_timer False e (snd (save_scene e m)))
     \<and> take 1 (added m (snd (auto_save_done e m))) = [HipSave]
     \<and> (\<not> autosave_session_mute m \<and> qapp_thread e = Some (current_thread e)
          \<and> (save_raises e = None \<or> (\<exists>ex. save_raises e = Some ex \<and> is_Exception ex))
          \<and> autosave_interval m = PyFloat x \<and> interval_msec e (PyFloat x) = Inr n \<and> c_int n
         \<longrightarrow> fst (auto_save_done e m) = None
           \<and> is_autosave_timer_active (snd (auto_save_done e m))
           \<and> last (butlast (added m (snd (auto_save_done e m)))) = TimerStart n)"
proof -
  let ?s = "snd (save_scene e m)"
  have c: "clicked_button m = Some ''Save''"
    using assms by (simp add: clicked_button_def)
  then have eq: "auto_save_done e m =
       (case fst (save_scene e m) of
          Inl ex \<Rightarrow> (Some ex, snd (save_scene e m))
        | Inr r \<Rightarrow> start_autosave_timer False e (snd (save_scene e m)))"
    by (simp add: auto_save_done_cases)
  obtain sv where sv: "trace ?s = trace m @ HipSave # sv"
    by (simp add: save_scene_snd)
  obtain cs where cs: "trace (snd (start_autosave_timer False e ?s)) = trace ?s @ cs"
    using start_trace [of False e ?s] by blast
  have t1: "take 1 (added m (snd (auto_save_done e m))) = [HipSave]"
    using cs sv by (cases "fst (save_scene e m)") (simp_all add: eq added_def)
  have run: "fst (auto_save_done e m) = None
       \<and> is_autosave_timer_active (snd (auto_save_done e m))
       \<and> last (butlast (added m (snd (auto_save_done e m)))) = TimerStart n"
    if h: "\<not> autosave_session_mute m" "qapp_thread e = Some (current_thread e)"
      "save_raises e = None \<or> (\<exists>ex. save_raises e = Some ex \<and> is_Exception ex)"
      "autosave_interval m = PyFloat x" "interval_msec e (PyFloat x) = Inr n" "c_int n"
  proof -
    have r: "\<exists>b. fst (save_scene e m) = Inr b"
      using h(3) by (auto simp: save_scene_fst)
    have "\<not> autosave_session_mute ?s" "autosave_interval ?s = PyFloat x"
      using h by (simp_all add: save_scene_snd)
    from start_run_active [OF this(1) h(2) this(2) h(5,6)]
    show ?thesis
      using r sv by (auto simp: eq added_def butlast_append)
  qed
  show ?thesis using eq t1 run by blast
qed

theorem auto_save_done_save_witness:
  "take 1 (added (init\<lparr>autosave_msg := Some (prompt\<lparr>display := Hidden (Some ''Save'')\<rparr>)\<rparr>)
        (snd (auto_save_done gui_env
           (init\<lparr>autosave_msg := Some (prompt\<lparr>display := Hidden (Some ''Save'')\<rparr>)\<rparr>))))
      = [HipSave]
   \<and> is_autosave_timer_active
        (snd (auto_save_done gui_env
           (init\<lparr>autosave_msg := Some (prompt\<lparr>display := Hidden (Some ''Save'')\<rparr>)\<rparr>)))
   \<and> last (butlast (added (init\<lparr>autosave_msg := Some (prompt\<lparr>display := Hidden (Some ''Save'')\<rparr>)\<rparr>)
        (snd (auto_save_done gui_env
           (init\<lparr>autosave_msg := Some (prompt\<lparr>display := Hidden (Some ''Save'')\<rparr>)\<rparr>)))))
      = TimerStart 12000"
proof -
  let ?d = "prompt\<lparr>display := Hidden (Some ''Save'')\<rparr>"
  let ?m = "init\<lparr>autosave_msg := Some ?d\<rparr>"
  let ?x = "Finite (3602879701896397 / 18014398509481984)"
  have a: "autosave_msg ?m = Some ?d" "clickedButton ?d = Some ''Save''"
    by (simp_all add: clickedButton_def)
  have i: "interval_msec gui_env (PyFloat ?x) = Inr 12000"
    using default_interval_msec [of gui_env] by (simp add: init_def)
  have pre: "\<not> autosave_session_mute ?m \<and> qapp_thread gui_env = Some (current_thread gui_env)
      \<and> (save_raises gui_env = None \<or> (\<exists>ex. save_raises gui_env = Some ex \<and> is_Exception ex))
      \<and> autosave_interval ?m = PyFloat ?x \<and> interval_msec gui_env (PyFloat ?x) = Inr 12000
      \<and> c_int 12000"
    using i by (simp add: init_def gui_env_def)
  from auto_save_done_save [OF a, of gui_env ?x 12000] pre show ?thesis by blast
qed

text \<open>
  The claim as written fails: when the host's save raises \<open>KeyboardInterrupt\<close>,
  \<open>auto_save_done\<close> ends with that exception after the save call, and
  \<open>start_autosave_timer\<close>, which would have started a timer, is not called.
\<close>

theorem auto_save_done_save_counterexample:
  "auto_save_done (gui_env\<lparr>save_raises := Some KeyboardInterrupt\<rparr>)
       (init\<lparr>autosave_msg := Some (prompt\<lparr>display := Hidden (Some ''Save'')\<rparr>)\<rparr>)
     = (Some KeyboardInterrupt,
        init\<lparr>autosave_msg := Some (prompt\<lparr>display := Hidden (Some ''Save'')\<rparr>),
             trace := [Log DEBUG, HipSave]\<rparr>)
   \<and> is_autosave_timer_active
        (snd (start_autosave_timer False (gui_env\<lparr>save_raises := Some KeyboardInterrupt\<rparr>)
           (init\<lparr>autosave_msg := Some (prompt\<lparr>display := Hidden (Some ''Save'')\<rparr>),
                 trace := [Log DEBUG, HipSave]\<rparr>)))"
proof -
  let ?e = "gui_env\<lparr>save_raises := Some KeyboardInterrupt\<rparr>"
  let ?m = "init\<lparr>autosave_msg := Some (prompt\<lparr>display := Hidden (Some ''Save'')\<rparr>)\<rparr>"
  have 1: "auto_save_done ?e ?m = (Some KeyboardInterrupt, ?m\<lparr>trace := [Log DEBUG, HipSave]\<rparr>)"
    by (simp add: auto_save_done_cases clicked_button_def clickedButton_def save_scene_def
        gui_env_def init_def emit_def)
  have i: "interval_msec ?e (PyFloat (Finite (3602879701896397 / 18014398509481984))) = Inr 12000"
    using default_interval_msec [of ?e] by (simp add: init_def)
  have 2: "is_autosave_timer_active (snd (start_autosave_timer False ?e (?m\<lparr>trace := [Log DEBUG, HipSave]\<rparr>)))"
    using start_run_active [of "?m\<lparr>trace := [Log DEBUG, HipSave]\<rparr>" ?e
        "Finite (3602879701896397 / 18014398509481984)" 12000] i
    by (simp add: init_def gui_env_def)
  show ?thesis using 1 2 by simp
qed

text \<open>
  Claim C6. When the clicked button is \<open>No\<close>, which is also what dismissing the prompt
  selects since \<open>No\<close> is its default and escape button, \<open>auto_save_done\<close> is the call
  \<open>start_autosave_timer()\<close> on the unchanged manager: no scene save is made, the
  session mute keeps its value, and on the GUI thread in a session that is not muted,
  with a float interval whose milliseconds fit a C \<open>int\<close>, the timer is active
  afterwards.
\<close>

theorem auto_save_done_no:
  assumes "autosave_msg m = Some d" and "clickedButton d = Some ''No''"
  shows "auto_save_done e m = start_autosave_timer False e m
     \<and> HipSave \<notin> set (added m (snd (auto_save_done e m)))
     \<and> autosave_session_mute (snd (auto_save_done e m)) = autosave_session_mute m
     \<and> answer Dismiss prompt = Some ''No'' \<and> answer (Click ''No'') prompt = Some ''No''
     \<and> defaultButton prompt = Some ''No'' \<and> escapeButton prompt = Some ''No''
     \<and> (\<not> autosave_session_mute m \<and> qapp_thread e = Some (current_thread e)
          \<and> autosave_interval m = PyFloat x \<and> interval_msec e (PyFloat x) = Inr n \<and> c_int n
         \<longrightarrow> fst (auto_save_done e m) = None
           \<and> is_autosave_timer_active (snd (auto_save_done e m))
           \<and> last (butlast (added m (snd (auto_save_done e m)))) = TimerStart n)"
proof -
  have c: "clicked_button m = Some ''No''"
    using assms by (simp add: clicked_button_def)
  then have eq: "auto_save_done e m = start_autosave_timer False e m"
    by (simp add: auto_save_done_cases)
  obtain cs where cs: "trace (snd (auto_save_done e m)) = trace m @ cs"
      "(HipSave \<in> set cs) = (clicked_button m = Some ''Save'')"
    using auto_save_done_trace [of e m] by blast
  then have ns: "HipSave \<notin> set (added m (snd (auto_save_done e m)))"
    using c by simp
  have mu: "autosave_session_mute (snd (auto_save_done e m)) = autosave_session_mute m"
    using c by (simp add: auto_save_done_mute)
  have pr: "answer Dismiss prompt = Some ''No''" "answer (Click ''No'') prompt = Some ''No''"
      "defaultButton prompt = Some ''No''" "escapeButton prompt = Some ''No''"
    by (simp_all add: answer_def prompt_def QMessageBox_def)
  have run: "fst (auto_save_done e m) = None \<and> is_autosave_timer_active (snd (auto_save_done e m))
      \<and> last (butlast (added m (snd (auto_save_done e m)))) = TimerStart n"
    if "\<not> autosave_session_mute m" "qapp_thread e = Some (current_thread e)"
      "autosave_interval m = PyFloat x" "interval_msec e (PyFloat x) = Inr n" "c_int n"
    using start_run_active [OF that] by (auto simp: eq added_def butlast_append)
  show ?thesis using eq ns mu pr run by blast
qed

theorem auto_save_done_no_witness:
  "is_autosave_timer_active
     (snd (auto_save_done gui_env (init\<lparr>autosave_msg := Some (prompt\<lparr>display := Hidden (Some ''No'')\<rparr>)\<rparr>)))
   \<and> last (butlast (added (init\<lparr>autosave_msg := Some (prompt\<lparr>display := Hidden (Some ''No'')\<rparr>)\<rparr>)
        (snd (auto_save_done gui_env
           (init\<lparr>autosave_msg := Some (prompt\<lparr>display := Hidden (Some ''No'')\<rparr>)\<rparr>)))))
      = TimerStart 12000
   \<and> HipSave \<notin> set (added (init\<lparr>autosave_msg := Some (prompt\<lparr>display := Hidden (Some ''No'')\<rparr>)\<rparr>)
        (snd (auto_save_done gui_env
           (init\<lparr>autosave_msg := Some (prompt\<lparr>display := Hidden (Some ''No'')\<rparr>)\<rparr>))))"
proof -
  let ?d = "prompt\<lparr>display := Hidden (Some ''No'')\<rparr>"
  let ?m = "init\<lparr>autosave_msg := Some ?d\<rparr>"
  let ?x = "Finite (3602879701896397 / 18014398509481984)"
  have a: "autosave_msg ?m = Some ?d" "clickedButton ?d = Some ''No''"
    by (simp_all add: clickedButton_def)
  have i: "interval_msec gui_env (PyFloat ?x) = Inr 12000"
    using default_interval_msec [of gui_env] by (simp add: init_def)
  have pre: "\<not> autosave_session_mute ?m \<and> qapp_thread gui_env = Some (current_thread gui_env)
      \<and> autosave_interval ?m = PyFloat ?x \<and> interval_msec gui_env (PyFloat ?x) = Inr 12000
      \<and> c_int 12000"
    using i by (simp add: init_def gui_env_def)
  from auto_save_done_no [OF a, of gui_env ?x 12000] pre show ?thesis by blast
qed

subsection \<open>Events\<close>

lemma orphans_upd [simp]:
  "orphans_inactive (m\<lparr>trace := t\<rparr>) = orphans_inactive m"
  "orphans_inactive (m\<lparr>autosave_session_mute := b\<rparr>) = orphans_inactive m"
  "orphans_inactive (m\<lparr>autosave_msg := d\<rparr>) = orphans_inactive m"
  "orphans_inactive (m\<lparr>autosave_timer := t'\<rparr>) = orphans_inactive m"
  by (simp_all add: orphans_inactive_def)

lemma check_autosave_orphans [simp]:
  "orphans_inactive (check_autosave r1 r2 m) = orphans_inactive m"
  by (simp add: orphans_inactive_def check_autosave_fields)


lemma on_scene_file_saved_cases:
  "on_scene_file_saved e m =
     (if \<not> autosave_session_mute m \<and> qapp_thread e = Some (current_thread e)
      then start_autosave_timer False e m
      else (None, snd (should_autosave_timer_run e m)))"
  using should_run_fst [of e m] should_run_snd_unmuted [of m e]
  by (auto simp: on_scene_file_saved_def split: prod.splits)

lemma scene_event_trace:
  "\<exists>cs. trace (snd (scene_event_callback t e m)) = trace m @ cs \<and> quiet cs
     \<and> (autosave_session_mute m \<longrightarrow> \<not> list_ex is_timer_start cs)"
  using start_trace [of False e m]
  by (auto simp: scene_event_callback_def on_scene_file_saved_cases should_run_fields)


lemma setup_manager_cases:
  "setup_manager e m =
     (let r = (if \<not> autosave_session_mute m \<and> qapp_thread e = Some (current_thread e)
               then start_autosave_timer False e m
               else (None, snd (should_autosave_timer_run e m)))
      in case fst r of
           Some x \<Rightarrow> (Some x, snd r)
         | None \<Rightarrow> (None, emit (Log DEBUG) (emit AddEventCallback (snd r))))"
  using should_run_fst [of e m] should_run_snd_unmuted [of m e]
  by (auto simp: setup_manager_def Let_def split: prod.splits option.splits)

lemma setup_manager_trace:
  "\<exists>cs. trace (snd (setup_manager e m)) = trace m @ cs \<and> quiet cs
     \<and> (autosave_session_mute m \<longrightarrow> \<not> list_ex is_timer_start cs)"
  using start_trace [of False e m]
  by (auto simp: setup_manager_cases Let_def should_run_fields emit_def split: option.splits)

lemma step_save:
  "\<exists>cs. trace (step ev m) = trace m @ cs \<and> (HipSave \<in> set cs) = save_clicked ev m"
proof (cases ev)
  case (TimerFired r1 r2)
  then show ?thesis by (auto simp: check_autosave_trace split: option.splits)
next
  case (OrphanTimerFired i r1 r2)
  then show ?thesis by (auto simp: check_autosave_trace)
next
  case (DialogFinished r e)
  show ?thesis
  proof (cases "autosave_msg m")
    case None
    then show ?thesis using DialogFinished by simp
  next
    case (Some d)
    let ?m = "m\<lparr>autosave_msg := Some (d\<lparr>display := Hidden (answer r d)\<rparr>)\<rparr>"
    have "clicked_button ?m = answer r d" by (simp add: clicked_button_def clickedButton_def)
    then show ?thesis
      using DialogFinished Some auto_save_done_trace [of e ?m] by auto
  qed
next
  case (SceneEvent t e)
  then show ?thesis using scene_event_trace [of t e m] by (auto simp: quiet_def)
qed

subsection \<open>Saving\<close>

text \<open>
  Claim C7. The scene save of the host is the only persistence call there is, and it
  is made by \<open>save_scene\<close> alone: an event makes the manager save exactly when it is a
  click on \<open>Save\<close> in the visible prompt, \<open>auto_save_done\<close> saves exactly when the
  clicked button is \<open>Save\<close>, and starting or stopping the timer, the enabled check, the
  timer's slot, the scene-event callback and the set-up make no save.
\<close>

theorem save_only_on_save_click:
  "(HipSave \<in> set (added m (step ev m))) = save_clicked ev m
   \<and> (HipSave \<in> set (added m (snd (auto_save_done e m)))) = (clicked_button m = Some ''Save'')
   \<and> added m (snd (save_scene e m)) =
       HipSave # (case save_raises e of None \<Rightarrow> [Log INFO]
                  | Some ex \<Rightarrow> if is_Exception ex then [Log ERROR] else [])
   \<and> HipSave \<notin> set (added m (snd (start_autosave_timer q e m)))
   \<and> HipSave \<notin> set (added m (snd (should_autosave_timer_run e m)))
   \<and> HipSave \<notin> set (added m (snd (autosave_enabled r1 m)))
   \<and> HipSave \<notin> set (added m (check_autosave r1 r2 m))
   \<and> HipSave \<notin> set (added m (snd (on_scene_file_saved e m)))
   \<and> HipSave \<notin> set (added m (snd (scene_event_callback t e m)))
   \<and> HipSave \<notin> set (added m (snd (setup_manager e m)))"
proof -
  have 1: "(HipSave \<in> set (added m (step ev m))) = save_clicked ev m"
    using step_save [of ev m] by auto
  have 2: "(HipSave \<in> set (added m (snd (auto_save_done e m)))) = (clicked_button m = Some ''Save'')"
    using auto_save_done_trace [of e m] by auto
  have 3: "added m (snd (save_scene e m)) =
       HipSave # (case save_raises e of None \<Rightarrow> [Log INFO]
                  | Some ex \<Rightarrow> if is_Exception ex then [Log ERROR] else [])"
    by (simp add: save_scene_snd added_def)
  have 4: "HipSave \<notin> set (added m (snd (start_autosave_timer q e m)))"
    using start_trace [of q e m] by (auto simp: quiet_def)
  have 5: "HipSave \<notin> set (added m (snd (should_autosave_timer_run e m)))"
    by (simp add: added_def should_run_fields)
  have 6: "HipSave \<notin> set (added m (snd (autosave_enabled r1 m)))"
    by (simp add: added_def autosave_enabled_def emit_def)
  have 7: "HipSave \<notin> set (added m (check_autosave r1 r2 m))"
    by (simp add: added_def check_autosave_trace)
  have 8: "HipSave \<notin> set (added m (snd (scene_event_callback t' e m)))" for t'
    using scene_event_trace [of t' e m] by (auto simp: quiet_def)
  have 9: "HipSave \<notin> set (added m (snd (on_scene_file_saved e m)))"
    using 8 [of AfterSave] by (simp add: scene_event_callback_def)
  have 10: "HipSave \<notin> set (added m (snd (setup_manager e m)))"
    using setup_manager_trace [of e m] by (auto simp: quiet_def)
  show ?thesis using 1 2 3 4 5 6 7 8 9 10 by blast
qed

theorem save_only_on_save_click_witness:
  "HipSave \<in> set (added (init\<lparr>autosave_msg := Some prompt\<rparr>)
       (step (DialogFinished (Click ''Save'') gui_env) (init\<lparr>autosave_msg := Some prompt\<rparr>)))
   \<and> HipSave \<notin> set (added (init\<lparr>autosave_msg := Some prompt\<rparr>)
       (step (DialogFinished Dismiss gui_env) (init\<lparr>autosave_msg := Some prompt\<rparr>)))
   \<and> HipSave \<notin> set (added init (snd (setup_manager gui_env init)))"
  using save_only_on_save_click [of "init\<lparr>autosave_msg := Some prompt\<rparr>"
      "DialogFinished (Click ''Save'') gui_env"]
    save_only_on_save_click [of "init\<lparr>autosave_msg := Some prompt\<rparr>"
      "DialogFinished Dismiss gui_env"]
    save_only_on_save_click [of init _ gui_env]
  by (simp add: init_def prompt_def QMessageBox_def answer_def isVisible_def)

subsection \<open>A muted session\<close>





subsection \<open>A run from the set-up\<close>

lemma default_msec [simp]:
  "interval_msec e (PyFloat (Finite (3602879701896397 / 18014398509481984))) = Inr 12000"
  using default_interval_msec [of e] by (simp add: init_def)

lemmas run_simps = run_def setup_manager_cases scene_event_callback_def
  on_scene_file_saved_cases start_eq stop_active_def start_rest_run start_rest_quit
  new_timer_def convert_interval_def is_autosave_timer_active_def emit_def Let_def
  check_autosave_def autosave_enabled_def fired_def QTimer_def prompt_def QMessageBox_def
  isVisible_def autosave_on_def autosave_off_def gui_env_def init_def added_def
  active_timers_def

lemma after_setup:
  "snd (setup_manager gui_env init) =
     init\<lparr>autosave_timer := Some \<lparr>isActive = True, singleShot = True, interval = 12000,
                                   timeout_slot = True\<rparr>,
          trace := [Log DEBUG, TimerNew, TimerStart 12000, Log DEBUG, AddEventCallback, Log DEBUG]\<rparr>"
  by (simp add: run_simps)

subsection \<open>After a check that finds autosave enabled\<close>

text \<open>
  Claim C4 at a concrete run: after the set-up on the GUI thread the timer is active;
  when it fires and the host reports autosave on, no dialog is created, the
  single-shot timer is inactive and nothing was started, and no timer expiry or
  dialog response can occur in the state reached: each of them leaves it unchanged.
\<close>

theorem enabled_check_not_rescheduled:
  "is_autosave_timer_active (snd (setup_manager gui_env init))
   \<and> \<not> is_autosave_timer_active
        (step (TimerFired autosave_on autosave_on) (snd (setup_manager gui_env init)))
   \<and> active_timers (step (TimerFired autosave_on autosave_on) (snd (setup_manager gui_env init))) = 0
   \<and> autosave_msg (step (TimerFired autosave_on autosave_on) (snd (setup_manager gui_env init))) = None
   \<and> added (snd (setup_manager gui_env init))
        (step (TimerFired autosave_on autosave_on) (snd (setup_manager gui_env init)))
      = [Log DEBUG, Hscript, Log DEBUG, Hscript]
   \<and> step (TimerFired r1 r2)
        (step (TimerFired autosave_on autosave_on) (snd (setup_manager gui_env init)))
      = step (TimerFired autosave_on autosave_on) (snd (setup_manager gui_env init))
   \<and> step (OrphanTimerFired i r1 r2)
        (step (TimerFired autosave_on autosave_on) (snd (setup_manager gui_env init)))
      = step (TimerFired autosave_on autosave_on) (snd (setup_manager gui_env init))
   \<and> step (DialogFinished r e)
        (step (TimerFired autosave_on autosave_on) (snd (setup_manager gui_env init)))
      = step (TimerFired autosave_on autosave_on) (snd (setup_manager gui_env init))"
  unfolding after_setup
  by (simp add: init_def is_autosave_timer_active_def emit_def fired_def check_autosave_def
        autosave_enabled_def autosave_on_def added_def active_timers_def)

subsection \<open>Stopping and closing\<close>

lemma prompt_open:
  "step (TimerFired autosave_off autosave_off) (snd (setup_manager gui_env init)) =
     init\<lparr>autosave_timer := Some \<lparr>isActive = False, singleShot = True, interval = 12000,
                                   timeout_slot = True\<rparr>,
          autosave_msg := Some prompt,
          trace := [Log DEBUG, TimerNew, TimerStart 12000, Log DEBUG, AddEventCallback, Log DEBUG,
                    Log DEBUG, Hscript, Log DEBUG, Hscript, MsgNew, MsgShow]\<rparr>"
  unfolding after_setup
  by (simp add: init_def emit_def fired_def check_autosave_def autosave_enabled_def
        autosave_off_def)

lemma prompt_open_saved:
  "step (SceneEvent AfterSave gui_env)
     (step (TimerFired autosave_off autosave_off) (snd (setup_manager gui_env init))) =
     init\<lparr>autosave_timer := Some \<lparr>isActive = True, singleShot = True, interval = 12000,
                                   timeout_slot = True\<rparr>,
          autosave_msg := Some prompt,
          orphan_timers := [\<lparr>isActive = False, singleShot = True, interval = 12000,
                              timeout_slot = True\<rparr>],
          trace := [Log DEBUG, TimerNew, TimerStart 12000, Log DEBUG, AddEventCallback, Log DEBUG,
                    Log DEBUG, Hscript, Log DEBUG, Hscript, MsgNew, MsgShow,
                    TimerNew, TimerStart 12000, Log DEBUG]\<rparr>"
  unfolding prompt_open
  by (simp add: scene_event_callback_def on_scene_file_saved_cases start_eq stop_active_def
        start_rest_run new_timer_def convert_interval_def is_autosave_timer_active_def emit_def
        Let_def QTimer_def gui_env_def init_def)

lemma prompt_open_saved_twice:
  "step (SceneEvent AfterSave gui_env)
     (step (SceneEvent AfterSave gui_env)
       (step (TimerFired autosave_off autosave_off) (snd (setup_manager gui_env init)))) =
     init\<lparr>autosave_timer := Some \<lparr>isActive = True, singleShot = True, interval = 12000,
                                   timeout_slot = True\<rparr>,
          autosave_msg := Some (prompt\<lparr>display := Hidden (Some ''No'')\<rparr>),
          orphan_timers := [\<lparr>isActive = False, singleShot = True, interval = 12000,
                              timeout_slot = True\<rparr>,
                            \<lparr>isActive = False, singleShot = True, interval = 12000,
                              timeout_slot = True\<rparr>,
                            \<lparr>isActive = True, singleShot = True, interval = 12000,
                              timeout_slot = True\<rparr>],
          trace := [Log DEBUG, TimerNew, TimerStart 12000, Log DEBUG, AddEventCallback, Log DEBUG,
                    Log DEBUG, Hscript, Log DEBUG, Hscript, MsgNew, MsgShow,
                    TimerNew, TimerStart 12000, Log DEBUG,
                    TimerStop, MsgClose, TimerNew, TimerStart 12000, Log DEBUG,
                    TimerNew, TimerStart 12000, Log DEBUG]\<rparr>"
  unfolding prompt_open_saved
  by (simp add: scene_event_callback_def on_scene_file_saved_cases start_eq stop_active_def
        start_rest_run new_timer_def convert_interval_def is_autosave_timer_active_def emit_def
        Let_def QTimer_def gui_env_def init_def prompt_def QMessageBox_def isVisible_def)

text \<open>
  Claim C9 at a concrete run. After the set-up the timer fires with autosave off: the
  prompt is on screen and no timer is active. \<open>start_autosave_timer()\<close> then starts
  a new timer and leaves the prompt on screen, since the \<open>close()\<close> of line 95 is
  under the test of line 92. After the scene event that made this call, a timer is
  active and the prompt is on screen; the next \<open>start_autosave_timer()\<close> stops the
  timer and closes the prompt, the slot of \<open>finished\<close> starts a timer inside that
  \<open>close()\<close>, and line 109 replaces this timer, still active, before line 112 starts
  another one. With \<open>quit=True\<close> the call ends with the slot's timer active.
\<close>

theorem start_autosave_timer_misses:
  "map_option isVisible
     (autosave_msg (run [TimerFired autosave_off autosave_off] (snd (setup_manager gui_env init))))
     = Some True
   \<and> \<not> is_autosave_timer_active
        (run [TimerFired autosave_off autosave_off] (snd (setup_manager gui_env init)))
   \<and> map_option isVisible
     (autosave_msg (snd (start_autosave_timer False gui_env
        (run [TimerFired autosave_off autosave_off] (snd (setup_manager gui_env init))))))
     = Some True
   \<and> added (run [TimerFired autosave_off autosave_off] (snd (setup_manager gui_env init)))
        (snd (start_autosave_timer False gui_env
          (run [TimerFired autosave_off autosave_off] (snd (setup_manager gui_env init)))))
     = [TimerNew, TimerStart 12000, Log DEBUG]
   \<and> added (run [TimerFired autosave_off autosave_off, SceneEvent AfterSave gui_env]
               (snd (setup_manager gui_env init)))
        (snd (start_autosave_timer False gui_env
          (run [TimerFired autosave_off autosave_off, SceneEvent AfterSave gui_env]
             (snd (setup_manager gui_env init)))))
     = [TimerStop, MsgClose, TimerNew, TimerStart 12000, Log DEBUG,
        TimerNew, TimerStart 12000, Log DEBUG]
   \<and> active_timers
        (snd (start_autosave_timer False gui_env
          (run [TimerFired autosave_off autosave_off, SceneEvent AfterSave gui_env]
             (snd (setup_manager gui_env init)))))
     = 2
   \<and> added (run [TimerFired autosave_off autosave_off, SceneEvent AfterSave gui_env]
               (snd (setup_manager gui_env init)))
        (snd (start_autosave_timer True gui_env
          (run [TimerFired autosave_off autosave_off, SceneEvent AfterSave gui_env]
             (snd (setup_manager gui_env init)))))
     = [TimerStop, MsgClose, TimerNew, TimerStart 12000, Log DEBUG, Log INFO]
   \<and> is_autosave_timer_active
        (snd (start_autosave_timer True gui_env
          (run [TimerFired autosave_off autosave_off, SceneEvent AfterSave gui_env]
             (snd (setup_manager gui_env init)))))"
proof -
  have r1: "run [TimerFired autosave_off autosave_off] (snd (setup_manager gui_env init)) =
      step (TimerFired autosave_off autosave_off) (snd (setup_manager gui_env init))"
    by (simp add: run_def)
  have r2: "run [TimerFired autosave_off autosave_off, SceneEvent AfterSave gui_env]
        (snd (setup_manager gui_env init)) =
      step (SceneEvent AfterSave gui_env)
        (step (TimerFired autosave_off autosave_off) (snd (setup_manager gui_env init)))"
    by (simp add: run_def)
  show ?thesis
    unfolding r1 r2 prompt_open_saved
    unfolding prompt_open
    by (simp add: start_eq stop_active_def start_rest_run start_rest_quit new_timer_def
        convert_interval_def is_autosave_timer_active_def emit_def Let_def QTimer_def gui_env_def
        init_def prompt_def QMessageBox_def isVisible_def added_def active_timers_def)
qed

subsection \<open>Integer literals and repeated strings\<close>

lemma digit_not_space: "is_digit c \<Longrightarrow> \<not> is_space c"
  by (auto simp: is_digit_def is_space_def)

lemma digit_not_sign: "is_digit c \<Longrightarrow> \<not> is_sign c"
  by (auto simp: is_digit_def is_sign_def)

lemma sign_not_space: "is_sign c \<Longrightarrow> \<not> is_space c"
  by (auto simp: is_sign_def is_space_def)

lemma underscore_plain [simp]: "\<not> is_space CHR ''_''" "\<not> is_sign CHR ''_''"
  by (simp_all add: is_space_def is_sign_def)

lemma strip_decomp:
  "\<exists>w1 w2. t = w1 @ strip t @ w2 \<and> (\<forall>c\<in>set w1. is_space c) \<and> (\<forall>c\<in>set w2. is_space c)"
proof -
  let ?u = "dropWhile is_space t"
  have 1: "t = takeWhile is_space t @ ?u" by simp
  have 2: "?u = strip t @ rev (takeWhile is_space (rev ?u))"
    unfolding strip_def by (metis rev_append rev_rev_ident takeWhile_dropWhile_id)
  have 3: "\<forall>c\<in>set (takeWhile is_space t). is_space c"
    by (auto dest: set_takeWhileD)
  have 4: "\<forall>c\<in>set (rev (takeWhile is_space (rev ?u))). is_space c"
    by (auto dest: set_takeWhileD)
  from 1 2 have "t = takeWhile is_space t @ strip t @ rev (takeWhile is_space (rev ?u))"
    by simp
  with 3 4 show ?thesis by blast
qed

lemma strip_no_space: "\<forall>c\<in>set t. \<not> is_space c \<Longrightarrow> strip t = t"
proof -
  assume a: "\<forall>c\<in>set t. \<not> is_space c"
  then have "dropWhile is_space t = t" by (cases t) auto
  moreover have "dropWhile is_space (rev t) = rev t" using a by (cases "rev t") auto
  ultimately show ?thesis by (simp add: strip_def)
qed

lemma int_literal_core:
  "int_literal t \<Longrightarrow>
   \<exists>w1 sg d w2. t = w1 @ sg @ d @ w2 \<and> (\<forall>c\<in>set w1. is_space c) \<and> (\<forall>c\<in>set w2. is_space c)
     \<and> (sg = [] \<or> (\<exists>c. sg = [c] \<and> is_sign c)) \<and> digitpart d"
proof -
  assume v: "int_literal t"
  obtain w1 w2 where w: "t = w1 @ strip t @ w2" "\<forall>c\<in>set w1. is_space c" "\<forall>c\<in>set w2. is_space c"
    using strip_decomp by blast
  show ?thesis
  proof (cases "signed (strip t)")
    case True
    then obtain c k where k: "strip t = c # k" "is_sign c"
      by (cases "strip t") (auto simp: signed_def)
    then have d: "digitpart k"
      using v True by (simp add: int_literal_def unsigned_part_def)
    have "t = w1 @ [c] @ k @ w2" using w(1) k(1) by simp
    with w(2,3) k(2) d show ?thesis by blast
  next
    case False
    then have d: "digitpart (strip t)"
      using v by (simp add: int_literal_def unsigned_part_def)
    have "t = w1 @ [] @ strip t @ w2" using w(1) by simp
    with w(2,3) d show ?thesis by blast
  qed
qed

lemma digitpart_chars: "digitpart d \<Longrightarrow> c \<in> set d \<Longrightarrow> is_digit c \<or> c = CHR ''_''"
  by (auto simp: digitpart_def list_all_iff)

lemma int_literal_has_digit: "int_literal t \<Longrightarrow> \<exists>c\<in>set t. is_digit c"
proof -
  assume "int_literal t"
  from int_literal_core [OF this] obtain w1 sg d w2 where
    t: "t = w1 @ sg @ d @ w2" and d: "digitpart d" by blast
  then have "d \<noteq> []" "is_digit (hd d)" by (simp_all add: digitpart_def)
  then have "hd d \<in> set t" using t by simp
  with \<open>is_digit (hd d)\<close> show ?thesis by blast
qed

lemma split_three:
  assumes "x @ c # y = w1 @ k @ w2"
  shows "(\<exists>z. w1 = x @ c # z) \<or> (\<exists>a b. k = a @ c # b \<and> x = w1 @ a \<and> y = b @ w2)
     \<or> (\<exists>z. w2 = z @ c # y)"
  using assms
  by (auto simp: append_eq_append_conv2 append_eq_Cons_conv Cons_eq_append_conv)

lemma int_literal_space:
  assumes "int_literal t" and "t = x @ c # y" and "is_space c"
  shows "(\<forall>a\<in>set x. is_space a) \<or> (\<forall>a\<in>set y. is_space a)"
proof -
  from int_literal_core [OF assms(1)] obtain w1 sg d w2 where
    t: "t = w1 @ sg @ d @ w2" and w: "\<forall>c\<in>set w1. is_space c" "\<forall>c\<in>set w2. is_space c"
    and sg: "sg = [] \<or> (\<exists>c. sg = [c] \<and> is_sign c)" and d: "digitpart d"
    by blast
  have k: "\<not> is_space a" if "a \<in> set (sg @ d)" for a
    using that sg digitpart_chars [OF d, of a] digit_not_space sign_not_space by auto
  have "x @ c # y = w1 @ (sg @ d) @ w2" using t assms(2) by simp
  from split_three [OF this] show ?thesis
  proof (elim disjE exE conjE)
    fix z assume "w1 = x @ c # z"
    then show ?thesis using w(1) by auto
  next
    fix a b assume "sg @ d = a @ c # b"
    then have "c \<in> set (sg @ d)" by simp
    then show ?thesis using k assms(3) by blast
  next
    fix z assume "w2 = z @ c # y"
    then show ?thesis using w(2) by auto
  qed
qed

lemma int_literal_sign:
  assumes "int_literal t" and "t = x @ c # y" and "is_sign c"
  shows "\<forall>a\<in>set x. is_space a"
proof -
  from int_literal_core [OF assms(1)] obtain w1 sg d w2 where
    t: "t = w1 @ sg @ d @ w2" and w: "\<forall>c\<in>set w1. is_space c" "\<forall>c\<in>set w2. is_space c"
    and sg: "sg = [] \<or> (\<exists>c. sg = [c] \<and> is_sign c)" and d: "digitpart d"
    by blast
  have nd: "c \<notin> set d"
    using digitpart_chars [OF d, of c] digit_not_sign assms(3) by auto
  have ns: "\<not> is_space c" using assms(3) by (rule sign_not_space)
  have "x @ c # y = w1 @ (sg @ d) @ w2" using t assms(2) by simp
  from split_three [OF this] show ?thesis
  proof (elim disjE exE conjE)
    fix z assume "w1 = x @ c # z"
    then show ?thesis using w(1) ns by auto
  next
    fix a b assume ab: "sg @ d = a @ c # b" "x = w1 @ a"
    have "a = []"
    proof (cases a)
      case Nil then show ?thesis .
    next
      case (Cons a0 a')
      then have "c \<in> set d" using ab(1) sg
        by (auto simp: Cons_eq_append_conv append_eq_Cons_conv)
      then show ?thesis using nd by simp
    qed
    then show ?thesis using ab(2) w(1) by simp
  next
    fix z assume "w2 = z @ c # y"
    then show ?thesis using w(2) ns by auto
  qed
qed

lemma double_underscore_append:
  "has_double_underscore xs \<Longrightarrow> has_double_underscore (xs @ ys)"
  by (induction xs rule: has_double_underscore.induct) auto

lemma int_literal_plain:
  assumes "int_literal t" and "\<forall>c\<in>set t. \<not> is_space c \<and> \<not> is_sign c"
  shows "digitpart t"
proof -
  have s: "strip t = t" using assms(2) by (simp add: strip_no_space)
  have "t \<noteq> []" using int_literal_has_digit [OF assms(1)] by auto
  then have "\<not> signed t" using assms(2) by (simp add: signed_def)
  then show ?thesis
    using assms(1) s by (simp add: int_literal_def unsigned_part_def)
qed

lemma digitpart_unsigned:
  assumes "digitpart s"
  shows "strip s = s" and "unsigned_part s = s"
proof -
  have ne: "s \<noteq> []" and hd: "is_digit (hd s)" using assms by (simp_all add: digitpart_def)
  have "\<not> is_space c" if "c \<in> set s" for c
    using digitpart_chars [OF assms that] digit_not_space [of c] by auto
  then show "strip s = s" by (simp add: strip_no_space)
  have "\<not> is_sign (hd s)" using hd by (rule digit_not_sign)
  then show "unsigned_part s = s" by (simp add: unsigned_part_def signed_def)
qed

lemma digitpart_int_literal: "digitpart s \<Longrightarrow> int_literal s"
  by (simp add: int_literal_def digitpart_unsigned)

lemma repeated_int_literal:
  assumes "int_literal (s @ s @ r)" and "s @ s @ r = q @ s"
    and "set r \<subseteq> set s"
  shows "int_literal s"
proof -
  let ?t = "s @ s @ r"
  have set_t: "set ?t = set s" using assms(3) by auto
  obtain g where g: "g \<in> set s" "is_digit g"
    using int_literal_has_digit [OF assms(1)] set_t by auto
  have not_all: "\<not> (\<forall>a\<in>set s. is_space a)"
    using g digit_not_space by blast
  have no_sign: "\<not> is_sign c" if c: "c \<in> set s" for c
  proof
    assume sc: "is_sign c"
    obtain x y where xy: "s = x @ c # y" using c by (auto dest: split_list)
    have "?t = (s @ x) @ c # (y @ r)" using xy by simp
    from int_literal_sign [OF assms(1) this sc] show False using not_all by auto
  qed
  have no_space: "\<not> is_space c" if c: "c \<in> set s" for c
  proof
    assume sc: "is_space c"
    obtain x y where xy: "s = x @ c # y" using c by (auto dest: split_list)
    have "?t = (s @ x) @ c # (y @ r)" using xy by simp
    from int_literal_space [OF assms(1) this sc] not_all
    have y: "\<forall>a\<in>set y. is_space a" by auto
    have "?t = x @ c # (y @ s @ r)" using xy by simp
    from int_literal_space [OF assms(1) this sc] not_all
    have x: "\<forall>a\<in>set x. is_space a" by auto
    have "\<forall>a\<in>set s. is_space a" using x y sc by (subst xy) auto
    then show False using not_all by blast
  qed
  have "\<forall>c\<in>set ?t. \<not> is_space c \<and> \<not> is_sign c"
    using no_sign no_space set_t by blast
  from int_literal_plain [OF assms(1) this] have dt: "digitpart ?t" .
  have ne: "s \<noteq> []" using g by auto
  have 1: "list_all (\<lambda>c. is_digit c \<or> c = CHR ''_'') s"
    using dt by (simp add: digitpart_def)
  have 2: "is_digit (hd s)" using dt ne by (simp add: digitpart_def)
  have "is_digit (last (q @ s))" using dt assms(2) by (simp add: digitpart_def)
  then have 3: "is_digit (last s)" using ne by simp
  have 4: "\<not> has_double_underscore s"
    using dt double_underscore_append [of s "s @ r"] by (auto simp: digitpart_def)
  have "digitpart s" using ne 1 2 3 4 by (simp add: digitpart_def)
  then show ?thesis by (rule digitpart_int_literal)
qed

lemma concat_replicate_shift: "concat (replicate k s) @ s = s @ concat (replicate k s)"
  by (induction k) simp_all

lemma py_str_mul_int_literal:
  assumes "2 \<le> n" and "int_literal (py_str_mul s n)"
  shows "int_literal s"
proof -
  define k where "k = nat n - 2"
  have k: "nat n = Suc (Suc k)" using assms(1) by (simp add: k_def)
  have a: "py_str_mul s n = s @ s @ concat (replicate k s)"
    by (simp add: py_str_mul_def k)
  have b: "s @ s @ concat (replicate k s) = (s @ concat (replicate k s)) @ s"
    using concat_replicate_shift [of k s] by simp
  have c: "set (concat (replicate k s)) \<subseteq> set s" by auto
  have "int_literal (s @ s @ concat (replicate k s))" using assms(2) a by simp
  from repeated_int_literal [OF this b c] show ?thesis .
qed

lemma py_int_of_str_literal: "py_int_of_str maxd t \<noteq> None \<Longrightarrow> int_literal t"
  by (auto simp: py_int_of_str_def int_literal_def Let_def split: if_splits)

subsection \<open>\<open>float\<close> accepts what \<open>int\<close> accepts\<close>

lemma lower_digit: "is_digit c \<or> c = CHR ''_'' \<Longrightarrow> lower c = c"
  by (auto simp: is_digit_def lower_def)

lemma int_literal_float:
  assumes "int_literal t"
  shows "py_float_of_str t \<noteq> None"
proof -
  let ?u = "unsigned_part (strip t)"
  have d: "digitpart ?u" using assms by (simp add: int_literal_def)
  then have ne: "?u \<noteq> []" and hd: "is_digit (hd ?u)" by (simp_all add: digitpart_def)
  have ch: "is_digit c \<or> c = CHR ''_''" if "c \<in> set ?u" for c
    using digitpart_chars [OF d that] .
  have "map lower ?u = ?u"
    using ch by (simp add: map_idI lower_digit)
  moreover have "?u \<noteq> ''inf''" "?u \<noteq> ''infinity''" "?u \<noteq> ''nan''"
    using hd by (auto simp: is_digit_def)
  moreover have noexp: "\<forall>c\<in>set ?u. \<not> is_exp_mark c"
    using ch by (auto simp: is_exp_mark_def is_digit_def)
  moreover have nodot: "\<forall>c\<in>set ?u. c \<noteq> CHR ''.''"
    using ch by (auto simp: is_digit_def)
  have tw: "takeWhile (\<lambda>c. \<not> is_exp_mark c) ?u = ?u" "dropWhile (\<lambda>c. \<not> is_exp_mark c) ?u = []"
    using noexp by (simp_all add: takeWhile_eq_all_conv dropWhile_eq_Nil_conv)
  have td: "takeWhile (\<lambda>c. c \<noteq> CHR ''.'') ?u = ?u" "dropWhile (\<lambda>c. c \<noteq> CHR ''.'') ?u = []"
    using nodot by (simp_all add: takeWhile_eq_all_conv dropWhile_eq_Nil_conv)
  have "decimal_of ?u \<noteq> None"
    using d by (simp add: decimal_of_def tw exponent_of_def mantissa_of_def td Let_def)
  ultimately show ?thesis
    by (auto simp: py_float_of_str_def Let_def split: option.splits)
qed

subsection \<open>An interval that is not a number\<close>

lemma interval_msec_str:
  assumes "\<not> int_literal s"
  shows "interval_msec e (PyStr s) = Inl ValueError"
proof -
  have "\<not> int_literal (py_str_mul s 60)"
    using py_str_mul_int_literal [of 60 s] assms by auto
  then have "\<not> int_literal (py_str_mul (py_str_mul s 60) 1000)"
    using py_str_mul_int_literal [of 1000 "py_str_mul s 60"] by auto
  then have "py_int_of_str (int_max_str_digits e) (py_str_mul (py_str_mul s 60) 1000) = None"
    using py_int_of_str_literal by blast
  then show ?thesis by (simp add: interval_msec_def)
qed

lemma start_rest_bad:
  assumes "autosave_interval m = PyStr s" and "py_float_of_str s = None"
    and "\<not> autosave_session_mute m" and "qapp_thread e = Some (current_thread e)"
  shows "start_rest False e m = (Some ValueError, new_timer (emit (Log WARNING) m))"
proof -
  have "\<not> int_literal s" using assms(2) int_literal_float by blast
  then have ms: "interval_msec e (PyStr s) = Inl ValueError" by (rule interval_msec_str)
  have ci: "convert_interval m = emit (Log WARNING) m"
    using assms(1,2) by (simp add: convert_interval_def)
  have iv: "autosave_interval (new_timer (emit (Log WARNING) m)) = PyStr s"
    using assms(1) by (simp add: new_timer_fields emit_def)
  show ?thesis
    using ms by (simp add: start_rest_run [OF assms(3,4)] ci Let_def iv)
qed

lemma stop_active_bad:
  assumes "autosave_interval m = PyStr s" and "py_float_of_str s = None"
    and "\<not> autosave_session_mute m" and "qapp_thread e = Some (current_thread e)"
  shows "autosave_interval (stop_active e m) = PyStr s
     \<and> \<not> is_autosave_timer_active (stop_active e m)
     \<and> (\<exists>cs. trace (stop_active e m) = trace m @ cs \<and> \<not> list_ex is_timer_start cs)"
proof (cases "is_autosave_timer_active m")
  case False
  then show ?thesis using assms(1) by (simp add: stop_active_idle)
next
  case True
  show ?thesis
  proof (cases "\<exists>d b. autosave_msg m = Some d \<and> escapeButton d = Some b \<and> isVisible d
            \<and> finished_slot d")
    case True
    then obtain d b where h: "autosave_msg m = Some d" "escapeButton d = Some b" "isVisible d"
        "finished_slot d" by blast
    let ?x = "emit MsgClose (emit TimerStop
           (m\<lparr>autosave_timer := map_option (\<lambda>t. t\<lparr>isActive := False\<rparr>) (autosave_timer m),
              autosave_msg := Some (d\<lparr>display := Hidden None\<rparr>)\<rparr>))"
    have x: "autosave_interval ?x = PyStr s" "\<not> autosave_session_mute ?x"
      using assms(1,3) by (simp_all add: emit_def)
    have sr: "start_rest False e ?x = (Some ValueError, new_timer (emit (Log WARNING) ?x))"
      by (rule start_rest_bad [OF x(1) assms(2) x(2) assms(4)])
    have st: "stop_active e m =
        (new_timer (emit (Log WARNING) ?x))\<lparr>autosave_msg := Some (d\<lparr>display := Hidden (Some b)\<rparr>)\<rparr>"
      unfolding stop_active_nested [OF \<open>is_autosave_timer_active m\<close> h] sr by simp
    have "trace (stop_active e m) = trace m @ [TimerStop, MsgClose, Log WARNING, TimerNew]"
      by (simp add: st new_timer_def emit_def)
    moreover have "\<not> list_ex is_timer_start [TimerStop, MsgClose, Log WARNING, TimerNew]"
      by simp
    moreover have "autosave_interval (stop_active e m) = PyStr s"
      using assms(1) by (simp add: st new_timer_def emit_def)
    moreover have "\<not> is_autosave_timer_active (stop_active e m)"
      by (simp add: st new_timer_def emit_def is_autosave_timer_active_def QTimer_def)
    ultimately show ?thesis by blast
  next
    case False
    from stop_active_plain [OF \<open>is_autosave_timer_active m\<close> this, of e]
    show ?thesis
      using assms(1)
      by (cases "autosave_timer m"; cases "autosave_msg m")
         (simp_all add: is_autosave_timer_active_def)
  qed
qed

text \<open>
  Claim C10. Let the interval be an ASCII string that \<open>float\<close> rejects. On the GUI
  thread, in a session that is not muted, \<open>start_autosave_timer()\<close> logs the warning,
  keeps the string, creates the timer and raises \<open>ValueError\<close> from the conversion of
  the repeated string: no timer is started and none is active.
\<close>

theorem non_numeric_interval_raises:
  assumes "autosave_interval m = PyStr s" and "ascii s" and "py_float_of_str s = None"
    and "\<not> autosave_session_mute m" and "qapp_thread e = Some (current_thread e)"
  shows "fst (start_autosave_timer False e m) = Some ValueError
     \<and> autosave_interval (snd (start_autosave_timer False e m)) = PyStr s
     \<and> last (butlast (added m (snd (start_autosave_timer False e m)))) = Log WARNING
     \<and> last (added m (snd (start_autosave_timer False e m))) = TimerNew
     \<and> \<not> list_ex is_timer_start (added m (snd (start_autosave_timer False e m)))
     \<and> \<not> is_autosave_timer_active (snd (start_autosave_timer False e m))"
proof -
  let ?s = "stop_active e m"
  from stop_active_bad [OF assms(1,3,4,5)]
  obtain cs where iv: "autosave_interval ?s = PyStr s" and cs: "trace ?s = trace m @ cs"
      "\<not> list_ex is_timer_start cs"
    by blast
  have mu: "\<not> autosave_session_mute ?s" using assms(4) by (simp add: stop_active_mute)
  have eq: "start_autosave_timer False e m = (Some ValueError, new_timer (emit (Log WARNING) ?s))"
    using start_rest_bad [OF iv assms(3) mu assms(5)] by (simp add: start_eq)
  have tr: "added m (new_timer (emit (Log WARNING) ?s)) = cs @ [Log WARNING, TimerNew]"
    using cs(1) by (simp add: added_def new_timer_fields emit_def)
  have f: "autosave_interval (new_timer (emit (Log WARNING) ?s)) = PyStr s"
      "\<not> is_autosave_timer_active (new_timer (emit (Log WARNING) ?s))"
    using iv by (simp_all add: new_timer_fields emit_def is_autosave_timer_active_def QTimer_def)
  show ?thesis
    using f cs(2) by (simp add: eq tr butlast_append)
qed

lemma float_abc: "py_float_of_str ''abc'' = None"
  by (simp add: py_float_of_str_def strip_def is_space_def unsigned_part_def signed_def
      is_sign_def negative_def lower_def decimal_of_def is_exp_mark_def mantissa_of_def
      exponent_of_def digitpart_def is_digit_def Let_def)

theorem non_numeric_interval_raises_witness:
  "py_float_of_str ''abc'' = None
   \<and> fst (start_autosave_timer False gui_env (init\<lparr>autosave_interval := PyStr ''abc''\<rparr>))
      = Some ValueError
   \<and> autosave_interval
        (snd (start_autosave_timer False gui_env (init\<lparr>autosave_interval := PyStr ''abc''\<rparr>)))
      = PyStr ''abc''
   \<and> \<not> is_autosave_timer_active
        (snd (start_autosave_timer False gui_env (init\<lparr>autosave_interval := PyStr ''abc''\<rparr>)))"
proof -
  let ?m = "init\<lparr>autosave_interval := PyStr ''abc''\<rparr>"
  have a: "autosave_interval ?m = PyStr ''abc''" "ascii ''abc''" "\<not> autosave_session_mute ?m"
      "qapp_thread gui_env = Some (current_thread gui_env)"
    by (simp_all add: ascii_def init_def gui_env_def)
  from non_numeric_interval_raises [OF a(1,2) float_abc a(3,4)] float_abc
  show ?thesis by blast
qed

subsection \<open>Two more intervals\<close>

text \<open>
  The float \<open>0.2681\<close>: the products are rounded, so the timer gets 16085 milliseconds,
  one less than the exact product would give.
\<close>

lemma rounded_interval_msec:
  "interval_msec e (PyFloat (Finite (603707530049015 / 2251799813685248))) = Inr 16085"
  unfolding interval_msec_def
  by code_simp

text \<open>
  The float \<open>1e6\<close>: its milliseconds do not fit a C \<open>int\<close>, so \<open>QTimer.start\<close> raises
  and the new timer stays inactive.
\<close>

lemma large_interval_msec:
  "interval_msec e (PyFloat (Finite 1000000)) = Inr 60000000000"
  unfolding interval_msec_def
  by code_simp

lemma large_interval_overflows:
  "fst (start_autosave_timer False gui_env (init\<lparr>autosave_interval := PyFloat (Finite 1000000)\<rparr>))
     = Some OverflowError
   \<and> \<not> is_autosave_timer_active
        (snd (start_autosave_timer False gui_env
           (init\<lparr>autosave_interval := PyFloat (Finite 1000000)\<rparr>)))"
  by (simp add: start_eq stop_active_def start_rest_run new_timer_def convert_interval_def
      is_autosave_timer_active_def emit_def Let_def QTimer_def gui_env_def init_def
      large_interval_msec c_int_def)

end
